theory Spec2Isabelle
  imports Main "HOL-Library.AList"
begin

section \<open>Data model\<close>

text \<open>
  The storage layer (\<^verbatim>\<open>MemStorage\<close>) keeps three JavaScript \<^verbatim>\<open>Map\<close>s and three
  counters. A JavaScript \<^verbatim>\<open>Map\<close> iterates in insertion order, \<^verbatim>\<open>set\<close> on a key that
  is present replaces the value in place, \<^verbatim>\<open>set\<close> on a new key appends, and
  \<^verbatim>\<open>delete\<close> removes the key. That is an association list with
  \<^const>\<open>AList.update\<close>, \<^const>\<open>AList.delete\<close> and \<^const>\<open>map_of\<close>; the keys of a
  \<^verbatim>\<open>Map\<close> are pairwise distinct, which theorems that depend on it assume of the
  starting state.

  Modelling decisions, the same throughout:
  \<^item> JavaScript numbers that hold identifiers, game ids and unix seconds are \<^typ>\<open>int\<close>
    (the loss of precision of a double beyond \<open>2^53\<close> is outside the model);
  \<^item> the clock (\<^verbatim>\<open>Math.floor(Date.now() / 1000)\<close>, \<^verbatim>\<open>new Date()\<close>) is a parameter of
    every operation that reads it;
  \<^item> the cached payload (\<^verbatim>\<open>any\<close>) is a type parameter \<open>'d\<close>;
  \<^item> a field whose name is taken in HOL or by another record carries a prefix
    (\<open>cache_id\<close>, \<open>user_id\<close>, \<open>fav_id\<close> for the three \<^verbatim>\<open>id\<close> fields, \<open>userId_next\<close> for
    the private counter \<^verbatim>\<open>userId\<close> of the store, \<open>in_\<close> for the fields of the insert
    types).
\<close>

record 'd GameCache =
  cache_id :: int
  key :: string
  data :: 'd
  timestamp :: int

record User =
  user_id :: int
  email :: string
  username :: string
  password :: string
  createdAt :: int
  profilePicture :: "string option"
  favoriteGames :: "int list option"

record Favorite =
  fav_id :: int
  userId :: int
  gameId :: int
  gameName :: string
  gameImage :: "string option"
  addedAt :: int

record InsertUser =
  in_email :: string
  in_username :: string
  in_password :: string
  in_profilePicture :: "string option"

record InsertFavorite =
  in_userId :: int
  in_gameId :: int
  in_gameName :: string
  in_gameImage :: "string option"

record 'd MemStorage =
  gameCache :: "(string \<times> 'd GameCache) list"
  users :: "(int \<times> User) list"
  favorites :: "(int \<times> Favorite list) list"
  currentId :: int
  userId_next :: int
  favoriteId :: int

text \<open>The constructor. The hourly timer it installs only calls \<open>clearExpiredCache\<close>;
  when that runs is left to the caller of the model.\<close>

definition MemStorage_new :: "'d MemStorage" where
  "MemStorage_new =
     \<lparr>gameCache = [], users = [], favorites = [], currentId = 1, userId_next = 1, favoriteId = 1\<rparr>"

section \<open>Game cache methods\<close>

definition getGameCache :: "string \<Rightarrow> int \<Rightarrow> 'd MemStorage \<Rightarrow> 'd GameCache option \<times> 'd MemStorage" where
  "getGameCache k now s =
     (case map_of (gameCache s) k of
        None \<Rightarrow> (None, s)
      | Some cachedItem \<Rightarrow>
          if timestamp cachedItem < now
          then (None, s\<lparr>gameCache := AList.delete k (gameCache s)\<rparr>)
          else (Some cachedItem, s))"

definition cacheGameData :: "string \<Rightarrow> 'd \<Rightarrow> int \<Rightarrow> 'd MemStorage \<Rightarrow> 'd GameCache \<times> 'd MemStorage" where
  "cacheGameData k d ts s =
     (let cacheItem = \<lparr>cache_id = currentId s, key = k, data = d, timestamp = ts\<rparr>
      in (cacheItem,
          s\<lparr>currentId := currentId s + 1,
            gameCache := AList.update k cacheItem (gameCache s)\<rparr>))"

text \<open>The sweep walks a snapshot of the entries (\<^verbatim>\<open>Array.from(this.gameCache.entries())\<close>)
  and deletes from the live map.\<close>

definition clearExpiredCache :: "int \<Rightarrow> 'd MemStorage \<Rightarrow> 'd MemStorage" where
  "clearExpiredCache now s =
     s\<lparr>gameCache :=
         fold (\<lambda>(k, v) m. if timestamp v < now then AList.delete k m else m)
           (gameCache s) (gameCache s)\<rparr>"

text \<open>A run of cache operations, each with the moment at which it reads the clock
  (\<open>Put\<close> takes its expiry from the caller and reads no clock).\<close>

datatype 'd cache_op = Get string | Put string 'd int | Sweep

fun cache_step :: "int \<times> 'd cache_op \<Rightarrow> 'd MemStorage \<Rightarrow> 'd MemStorage" where
  "cache_step (now, Get k) s = snd (getGameCache k now s)"
| "cache_step (now, Put k d ts) s = snd (cacheGameData k d ts s)"
| "cache_step (now, Sweep) s = clearExpiredCache now s"

fun is_put_on :: "string \<Rightarrow> int \<times> 'd cache_op \<Rightarrow> bool" where
  "is_put_on k (now, Put k' d ts) = (k' = k)"
| "is_put_on k (now, Get k') = False"
| "is_put_on k (now, Sweep) = False"

section \<open>User methods\<close>

text \<open>\<^verbatim>\<open>x || null\<close> on an optional string: the empty string is falsy.\<close>

definition or_null :: "string option \<Rightarrow> string option" where
  "or_null x = (case x of None \<Rightarrow> None | Some v \<Rightarrow> if v = [] then None else Some v)"

text \<open>\<open>hashedPassword\<close> is what \<^verbatim>\<open>bcrypt.hash(userData.password, 10)\<close> returned (an
  external collaborator, salted and so not a function of the password), \<open>date\<close> is
  \<^verbatim>\<open>new Date()\<close>.\<close>

definition createUser :: "string \<Rightarrow> int \<Rightarrow> InsertUser \<Rightarrow> 'd MemStorage \<Rightarrow> User \<times> 'd MemStorage" where
  "createUser hashedPassword date userData s =
     (let newUser = \<lparr>user_id = userId_next s,
                      email = in_email userData,
                      username = in_username userData,
                      password = hashedPassword,
                      createdAt = date,
                      profilePicture = or_null (in_profilePicture userData),
                      favoriteGames = Some []\<rparr>
      in (newUser,
          s\<lparr>userId_next := userId_next s + 1,
            users := AList.update (user_id newUser) newUser (users s)\<rparr>))"

definition getUserByEmail :: "string \<Rightarrow> 'd MemStorage \<Rightarrow> User option" where
  "getUserByEmail e s = find (\<lambda>user. email user = e) (map snd (users s))"

definition getUserByUsername :: "string \<Rightarrow> 'd MemStorage \<Rightarrow> User option" where
  "getUserByUsername n s = find (\<lambda>user. username user = n) (map snd (users s))"

definition getUserById :: "int \<Rightarrow> 'd MemStorage \<Rightarrow> User option" where
  "getUserById i s = map_of (users s) i"

section \<open>Favorites methods\<close>

text \<open>
  \<^verbatim>\<open>push\<close> mutates the array, and the user object, that the map holds under
  \<^verbatim>\<open>favoriteData.userId\<close>: in the model the value stored under that key is replaced. The
  \<^verbatim>\<open>this.users.set(user.id, user)\<close> that follows is a second update, under the \<^verbatim>\<open>id\<close>
  field of the object.
\<close>

definition addFavorite :: "int \<Rightarrow> InsertFavorite \<Rightarrow> 'd MemStorage \<Rightarrow> Favorite \<times> 'd MemStorage" where
  "addFavorite date favoriteData s =
     (let newFavorite = \<lparr>fav_id = favoriteId s,
                          userId = in_userId favoriteData,
                          gameId = in_gameId favoriteData,
                          gameName = in_gameName favoriteData,
                          gameImage = or_null (in_gameImage favoriteData),
                          addedAt = date\<rparr>;
          favs0 = (if map_of (favorites s) (in_userId favoriteData) = None
                   then AList.update (in_userId favoriteData) [] (favorites s)
                   else favorites s);
          favs1 = (case map_of favs0 (in_userId favoriteData) of
                     None \<Rightarrow> favs0
                   | Some userFavorites \<Rightarrow>
                       AList.update (in_userId favoriteData) (userFavorites @ [newFavorite]) favs0);
          users1 = (case map_of (users s) (in_userId favoriteData) of
                      None \<Rightarrow> users s
                    | Some user \<Rightarrow>
                        let games = (case favoriteGames user of None \<Rightarrow> [] | Some l \<Rightarrow> l);
                            user' = user\<lparr>favoriteGames := Some (games @ [in_gameId favoriteData])\<rparr>
                        in AList.update (user_id user') user'
                             (AList.update (in_userId favoriteData) user' (users s)))
      in (newFavorite,
          s\<lparr>favoriteId := favoriteId s + 1, favorites := favs1, users := users1\<rparr>))"

definition removeFavorite :: "int \<Rightarrow> int \<Rightarrow> 'd MemStorage \<Rightarrow> bool \<times> 'd MemStorage" where
  "removeFavorite uid gid s =
     (case map_of (favorites s) uid of
        None \<Rightarrow> (False, s)
      | Some userFavorites \<Rightarrow>
          let initialLength = length userFavorites;
              updatedFavorites = filter (\<lambda>fav. gameId fav \<noteq> gid) userFavorites
          in if length updatedFavorites = initialLength then (False, s)
             else
               let s1 = s\<lparr>favorites := AList.update uid updatedFavorites (favorites s)\<rparr>
               in (case map_of (users s1) uid of
                     None \<Rightarrow> (True, s1)
                   | Some user \<Rightarrow>
                       (case favoriteGames user of
                          None \<Rightarrow> (True, s1)
                        | Some games \<Rightarrow>
                            (let user' = user\<lparr>favoriteGames := Some (filter (\<lambda>i. i \<noteq> gid) games)\<rparr>
                             in (True,
                                 s1\<lparr>users := AList.update (user_id user') user'
                                                (AList.update uid user' (users s1))\<rparr>)))))"

definition getUserFavorites :: "int \<Rightarrow> 'd MemStorage \<Rightarrow> Favorite list" where
  "getUserFavorites uid s = (case map_of (favorites s) uid of None \<Rightarrow> [] | Some l \<Rightarrow> l)"

text \<open>Runs of user and favorites operations.\<close>

datatype user_op =
    CreateUser string int InsertUser
  | AddFavorite int InsertFavorite
  | RemoveFavorite int int

fun user_step :: "user_op \<Rightarrow> 'd MemStorage \<Rightarrow> 'd MemStorage" where
  "user_step (CreateUser h date ud) s = snd (createUser h date ud s)"
| "user_step (AddFavorite date fd) s = snd (addFavorite date fd s)"
| "user_step (RemoveFavorite uid gid) s = snd (removeFavorite uid gid s)"

text \<open>A run in which every \<open>addFavorite\<close> names a user that exists when it is called.\<close>

fun adds_to_existing :: "user_op list \<Rightarrow> 'd MemStorage \<Rightarrow> bool" where
  "adds_to_existing [] s = True"
| "adds_to_existing (AddFavorite date fd # ops) s =
     (map_of (users s) (in_userId fd) \<noteq> None \<and>
      adds_to_existing ops (user_step (AddFavorite date fd) s))"
| "adds_to_existing (op # ops) s = adds_to_existing ops (user_step op s)"

section \<open>Invariants of the user and favorites maps\<close>

text \<open>
  \<open>users_inv\<close>: the user map holds, in insertion order, the keys \<open>1, 2, ...\<close> up to
  the last id handed out, each with a user whose \<open>id\<close> field is its key.
  \<open>mirror_inv\<close>: only existing users have a favorites list, and the \<open>favoriteGames\<close> of
  every user is the list of game ids of that user's Favorite records.
\<close>

definition users_inv :: "'d MemStorage \<Rightarrow> bool" where
  "users_inv s =
     (1 \<le> userId_next s \<and>
      map (\<lambda>p. (fst p, user_id (snd p))) (users s) = map (\<lambda>i. (i, i)) [1..userId_next s - 1])"

definition mirror_inv :: "'d MemStorage \<Rightarrow> bool" where
  "mirror_inv s =
     ((\<forall>k. map_of (favorites s) k \<noteq> None \<longrightarrow> map_of (users s) k \<noteq> None) \<and>
      (\<forall>k u. map_of (users s) k = Some u \<longrightarrow>
         favoriteGames u = Some (map gameId (getUserFavorites k s))))"

section \<open>JSON.stringify on query values\<close>

text \<open>
  What Express hands to a handler in \<^verbatim>\<open>req.query\<close> (type \<^verbatim>\<open>ParsedQs\<close>): a parameter is
  unset (\<open>None\<close>), a string, an array of values (a repeated parameter) or a nested
  object (bracket syntax). \<^verbatim>\<open>JSON.stringify\<close> quotes a string with the escapes of
  ECMAScript's \<^verbatim>\<open>QuoteJSONString\<close>: \<^verbatim>\<open>"\<close> and \<^verbatim>\<open>\\<close> behind a backslash, the control
  characters below \<open>0x20\<close> as \<^verbatim>\<open>\b \t \n \f \r\<close> or \<^verbatim>\<open>\u00xx\<close> (lower-case hex),
  everything else as it is. Characters are the 8-bit \<^typ>\<open>char\<close>; code units above
  \<open>0xFF\<close>, and with them the lone surrogates that \<^verbatim>\<open>JSON.stringify\<close> escapes, are
  outside the model. An object's members are written in order, a member whose value is
  \<^verbatim>\<open>undefined\<close> is left out.
\<close>

datatype qs = QStr string | QArr "qs list" | QObj "(string \<times> qs) list"

definition hexdigit :: "nat \<Rightarrow> char" where
  "hexdigit n = ''0123456789abcdef'' ! (n mod 16)"

definition escape_char :: "char \<Rightarrow> string" where
  "escape_char c =
     (if c = CHR 0x22 then [CHR 0x5C, CHR 0x22]
      else if c = CHR 0x5C then [CHR 0x5C, CHR 0x5C]
      else if c = CHR 0x08 then [CHR 0x5C, CHR ''b'']
      else if c = CHR 0x09 then [CHR 0x5C, CHR ''t'']
      else if c = CHR 0x0A then [CHR 0x5C, CHR ''n'']
      else if c = CHR 0x0C then [CHR 0x5C, CHR ''f'']
      else if c = CHR 0x0D then [CHR 0x5C, CHR ''r'']
      else if (of_char c :: nat) < 0x20
      then [CHR 0x5C, CHR ''u'', CHR ''0'', CHR ''0'',
            hexdigit (of_char c div 16), hexdigit (of_char c mod 16)]
      else [c])"

definition quoteJSON :: "string \<Rightarrow> string" where
  "quoteJSON s = CHR 0x22 # concat (map escape_char s) @ [CHR 0x22]"

fun commas :: "string list \<Rightarrow> string" where
  "commas [] = []"
| "commas [x] = x"
| "commas (x # y # ys) = x @ '','' @ commas (y # ys)"

fun stringify :: "qs \<Rightarrow> string" where
  "stringify (QStr s) = quoteJSON s"
| "stringify (QArr vs) = ''['' @ commas (map stringify vs) @ '']''"
| "stringify (QObj ms) =
     ''{'' @ commas (map (\<lambda>m. quoteJSON (fst m) @ '':'' @ stringify (snd m)) ms) @ ''}''"

definition stringify_object :: "(string \<times> string option) list \<Rightarrow> string" where
  "stringify_object ms =
     ''{'' @ commas (List.map_filter (\<lambda>m. map_option (\<lambda>t. quoteJSON (fst m) @ '':'' @ t) (snd m)) ms)
       @ ''}''"

text \<open>\<^verbatim>\<open>String(x)\<close> and the truthiness of a query value.\<close>

fun js_String :: "qs \<Rightarrow> string" where
  "js_String (QStr s) = s"
| "js_String (QArr vs) = commas (map js_String vs)"
| "js_String (QObj ms) = ''[object Object]''"

fun truthy :: "qs \<Rightarrow> bool" where
  "truthy (QStr s) = (s \<noteq> [])"
| "truthy (QArr vs) = True"
| "truthy (QObj ms) = True"

section \<open>The cached endpoints\<close>

text \<open>
  The query of \<^verbatim>\<open>GET /api/games\<close>. The destructuring gives \<^verbatim>\<open>page\<close> and \<^verbatim>\<open>page_size\<close>
  the numbers \<open>1\<close> and \<open>20\<close> when they are unset; the key is \<^verbatim>\<open>JSON.stringify\<close> of the
  object \<^verbatim>\<open>{ path: "/games", search, page, page_size, platforms, genres, ordering,
  esrb_rating }\<close>.
\<close>

record games_query =
  q_search :: "qs option"
  q_page :: "qs option"
  q_page_size :: "qs option"
  q_platforms :: "qs option"
  q_genres :: "qs option"
  q_ordering :: "qs option"
  q_esrb_rating :: "qs option"

definition games_cacheKey :: "games_query \<Rightarrow> string" where
  "games_cacheKey q =
     stringify_object
       [(''path'', Some (quoteJSON ''/games'')),
        (''search'', map_option stringify (q_search q)),
        (''page'', Some (case q_page q of None \<Rightarrow> ''1'' | Some v \<Rightarrow> stringify v)),
        (''page_size'', Some (case q_page_size q of None \<Rightarrow> ''20'' | Some v \<Rightarrow> stringify v)),
        (''platforms'', map_option stringify (q_platforms q)),
        (''genres'', map_option stringify (q_genres q)),
        (''ordering'', map_option stringify (q_ordering q)),
        (''esrb_rating'', map_option stringify (q_esrb_rating q))]"

text \<open>
  The upstream call \<^verbatim>\<open>axios.get(url, { params })\<close> is a parameter of each handler: it
  returns the payload (\<^verbatim>\<open>response.data\<close>) or fails, and the handler records the calls it
  makes. \<open>apiKey\<close> is \<^verbatim>\<open>RAWG_API_KEY\<close>. A handler reads the clock twice: inside
  \<open>getGameCache\<close> (\<open>t_lookup\<close>) and, after the upstream call has returned, for the
  expiry (\<open>t_store\<close>). \<open>Json d\<close> is \<^verbatim>\<open>res.json(d)\<close>, \<open>Failure n m\<close> is
  \<^verbatim>\<open>res.status(n).json({ message: m })\<close>. Which handler runs for a path is
  \<open>handle_GET\<close>, further down.
\<close>

definition RAWG_API_URL :: string where
  "RAWG_API_URL = ''https://api.rawg.io/api''"

datatype fetch_error = UpstreamFetchFailed

type_synonym 'd upstream = "string \<Rightarrow> (string \<times> string) list \<Rightarrow> fetch_error + 'd"

datatype 'd response = Json 'd | Failure nat string

record 'd outcome =
  response :: "'d response"
  upstream_calls :: "(string \<times> (string \<times> string) list) list"
  store :: "'d MemStorage"

definition optional_filter :: "string \<Rightarrow> qs option \<Rightarrow> (string \<times> string) list" where
  "optional_filter name x =
     (case x of None \<Rightarrow> [] | Some v \<Rightarrow> if truthy v then [(name, js_String v)] else [])"

definition games_params :: "string \<Rightarrow> games_query \<Rightarrow> (string \<times> string) list" where
  "games_params apiKey q =
     [(''key'', apiKey),
      (''page_size'', case q_page_size q of None \<Rightarrow> ''20'' | Some v \<Rightarrow> js_String v),
      (''page'', case q_page q of None \<Rightarrow> ''1'' | Some v \<Rightarrow> js_String v)]
     @ optional_filter ''search'' (q_search q)
     @ optional_filter ''platforms'' (q_platforms q)
     @ optional_filter ''genres'' (q_genres q)
     @ optional_filter ''ordering'' (q_ordering q)
     @ optional_filter ''esrb_rating'' (q_esrb_rating q)"

definition games_handler ::
  "string \<Rightarrow> 'd upstream \<Rightarrow> int \<Rightarrow> int \<Rightarrow> games_query \<Rightarrow> 'd MemStorage \<Rightarrow> 'd outcome" where
  "games_handler apiKey axios_get t_lookup t_store q s =
     (let cacheKey = games_cacheKey q
      in case getGameCache cacheKey t_lookup s of
           (Some cachedData, s1) \<Rightarrow>
             \<lparr>response = Json (data cachedData), upstream_calls = [], store = s1\<rparr>
         | (None, s1) \<Rightarrow>
             (let url = RAWG_API_URL @ ''/games'';
                  params = games_params apiKey q
              in case axios_get url params of
                   Inl err \<Rightarrow>
                     \<lparr>response = Failure 500 ''Failed to fetch games'',
                      upstream_calls = [(url, params)], store = s1\<rparr>
                 | Inr d \<Rightarrow>
                     \<lparr>response = Json d, upstream_calls = [(url, params)],
                      store = snd (cacheGameData cacheKey d (t_store + 3600) s1)\<rparr>))"

definition game_details_handler ::
  "string \<Rightarrow> 'd upstream \<Rightarrow> int \<Rightarrow> int \<Rightarrow> string \<Rightarrow> 'd MemStorage \<Rightarrow> 'd outcome" where
  "game_details_handler apiKey axios_get t_lookup t_store gid s =
     (let cacheKey = ''/games/'' @ gid
      in case getGameCache cacheKey t_lookup s of
           (Some cachedData, s1) \<Rightarrow>
             \<lparr>response = Json (data cachedData), upstream_calls = [], store = s1\<rparr>
         | (None, s1) \<Rightarrow>
             (let url = RAWG_API_URL @ ''/games/'' @ gid;
                  params = [(''key'', apiKey)]
              in case axios_get url params of
                   Inl err \<Rightarrow>
                     \<lparr>response = Failure 500 ''Failed to fetch game details'',
                      upstream_calls = [(url, params)], store = s1\<rparr>
                 | Inr d \<Rightarrow>
                     \<lparr>response = Json d, upstream_calls = [(url, params)],
                      store = snd (cacheGameData cacheKey d (t_store + 86400) s1)\<rparr>))"

text \<open>The search handler answers 400 unless \<^verbatim>\<open>query\<close> is a non-empty string; \<open>search_cached\<close>
  is the rest of its body.\<close>

definition search_cached ::
  "string \<Rightarrow> 'd upstream \<Rightarrow> int \<Rightarrow> int \<Rightarrow> string \<Rightarrow> 'd MemStorage \<Rightarrow> 'd outcome" where
  "search_cached apiKey axios_get t_lookup t_store query s =
     (let cacheKey = ''/search/'' @ query
      in case getGameCache cacheKey t_lookup s of
           (Some cachedData, s1) \<Rightarrow>
             \<lparr>response = Json (data cachedData), upstream_calls = [], store = s1\<rparr>
         | (None, s1) \<Rightarrow>
             (let url = RAWG_API_URL @ ''/games'';
                  params = [(''key'', apiKey), (''search'', query), (''page_size'', ''10'')]
              in case axios_get url params of
                   Inl err \<Rightarrow>
                     \<lparr>response = Failure 500 ''Failed to search games'',
                      upstream_calls = [(url, params)], store = s1\<rparr>
                 | Inr d \<Rightarrow>
                     \<lparr>response = Json d, upstream_calls = [(url, params)],
                      store = snd (cacheGameData cacheKey d (t_store + 1800) s1)\<rparr>))"

fun search_handler ::
  "string \<Rightarrow> 'd upstream \<Rightarrow> int \<Rightarrow> int \<Rightarrow> qs option \<Rightarrow> 'd MemStorage \<Rightarrow> 'd outcome" where
  "search_handler apiKey axios_get t_lookup t_store (Some (QStr query)) s =
     (if query = []
      then \<lparr>response = Failure 400 ''Search query is required'', upstream_calls = [], store = s\<rparr>
      else search_cached apiKey axios_get t_lookup t_store query s)"
| "search_handler apiKey axios_get t_lookup t_store query s =
     \<lparr>response = Failure 400 ''Search query is required'', upstream_calls = [], store = s\<rparr>"


text \<open>An upstream that answers every call with the same payload, and a sample listing
  query (\<^verbatim>\<open>?search=mario&page=1\<close>).\<close>

definition answering_upstream :: "'d \<Rightarrow> 'd upstream" where
  "answering_upstream d url params = Inr d"

definition mario_query :: games_query where
  "mario_query = \<lparr>q_search = Some (QStr ''mario''), q_page = Some (QStr ''1''), q_page_size = None,
     q_platforms = None, q_genres = None, q_ordering = None, q_esrb_rating = None\<rparr>"

section \<open>Route registration\<close>

text \<open>
  \<^verbatim>\<open>registerRoutes\<close> registers the cached routes in this order: \<^verbatim>\<open>GET /api/games\<close>,
  \<^verbatim>\<open>GET /api/games/:id\<close>, \<^verbatim>\<open>GET /api/games/search\<close>. Express runs the first registered
  route whose pattern matches the path, and none of these handlers calls \<^verbatim>\<open>next()\<close>, so
  a later route that matches as well never runs. A path is the list of its segments; a
  parameter such as \<^verbatim>\<open>:id\<close> matches any non-empty segment. The auth and favorites routes
  registered before these match none of these paths and are left out, as are Express's
  case-insensitive matching and optional trailing slash. \<open>handle_GET\<close> is \<open>None\<close> when no
  cached route matches.
\<close>

datatype segment = Lit string | Param

fun match_path :: "segment list \<Rightarrow> string list \<Rightarrow> string list option" where
  "match_path [] [] = Some []"
| "match_path (Lit l # ps) (x # xs) = (if l = x then match_path ps xs else None)"
| "match_path (Param # ps) (x # xs) =
     (if x = [] then None else map_option ((#) x) (match_path ps xs))"
| "match_path ps xs = None"

datatype endpoint = GamesListing | GameDetails | GamesSearch

definition cached_routes :: "(segment list \<times> endpoint) list" where
  "cached_routes =
     [([Lit ''api'', Lit ''games''], GamesListing),
      ([Lit ''api'', Lit ''games'', Param], GameDetails),
      ([Lit ''api'', Lit ''games'', Lit ''search''], GamesSearch)]"

fun first_match ::
  "(segment list \<times> endpoint) list \<Rightarrow> string list \<Rightarrow> (endpoint \<times> string list) option" where
  "first_match [] path = None"
| "first_match ((pat, e) # rs) path =
     (case match_path pat path of
        Some params \<Rightarrow> Some (e, params)
      | None \<Rightarrow> first_match rs path)"

record cached_request =
  req_path :: "string list"
  req_listing :: games_query
  req_query :: "qs option"

definition handle_GET ::
  "string \<Rightarrow> 'd upstream \<Rightarrow> int \<Rightarrow> int \<Rightarrow> cached_request \<Rightarrow> 'd MemStorage \<Rightarrow> 'd outcome option" where
  "handle_GET apiKey axios_get t_lookup t_store req s =
     (case first_match cached_routes (req_path req) of
        None \<Rightarrow> None
      | Some (GamesListing, params) \<Rightarrow>
          Some (games_handler apiKey axios_get t_lookup t_store (req_listing req) s)
      | Some (GameDetails, params) \<Rightarrow>
          (case params of
             [gid] \<Rightarrow> Some (game_details_handler apiKey axios_get t_lookup t_store gid s)
           | _ \<Rightarrow> None)
      | Some (GamesSearch, params) \<Rightarrow>
          Some (search_handler apiKey axios_get t_lookup t_store (req_query req) s))"

section \<open>The cache store: sweep and lazy expiry\<close>

text \<open>The sweep loop deletes exactly the keys that have an expired entry in the snapshot;
  on a map (distinct keys) that is a filter on the entries.\<close>

lemma sweep_fold:
  "fold (\<lambda>(k, v) m. if timestamp v < now then AList.delete k m else m) xs m
     = filter (\<lambda>(k, v). k \<notin> fst ` {p \<in> set xs. timestamp (snd p) < now}) m"
proof (induction xs arbitrary: m)
  case Nil
  show ?case by simp
next
  case (Cons x xs)
  obtain k v where x: "x = (k, v)" by (cases x)
  show ?case
  proof (cases "timestamp v < now")
    case True
    have "fst ` {p \<in> set (x # xs). timestamp (snd p) < now}
            = insert k (fst ` {p \<in> set xs. timestamp (snd p) < now})"
      using True x by force
    then have "filter (\<lambda>(k', v). k' \<notin> fst ` {p \<in> set (x # xs). timestamp (snd p) < now}) m
         = filter (\<lambda>(k', v). k' \<notin> fst ` {p \<in> set xs. timestamp (snd p) < now}) (AList.delete k m)"
      by (simp add: AList.delete_eq case_prod_unfold) (rule filter_cong, simp, blast)
    then show ?thesis
      using True x Cons.IH [of "AList.delete k m"] by simp
  next
    case False
    have "fst ` {p \<in> set (x # xs). timestamp (snd p) < now}
            = fst ` {p \<in> set xs. timestamp (snd p) < now}"
      using False x by force
    then show ?thesis
      using False x Cons.IH [of m] by simp
  qed
qed

lemma sweep_distinct:
  assumes "distinct (map fst m)"
  shows "fold (\<lambda>(k, v) m. if timestamp v < now then AList.delete k m else m) m m
           = filter (\<lambda>(k, v). \<not> timestamp v < now) m"
proof -
  have "(fst x \<notin> fst ` {p \<in> set m. timestamp (snd p) < now}) = (\<not> timestamp (snd x) < now)"
    if kv: "x \<in> set m" for x
  proof
    assume a: "fst x \<notin> fst ` {p \<in> set m. timestamp (snd p) < now}"
    show "\<not> timestamp (snd x) < now"
    proof
      assume "timestamp (snd x) < now"
      then have "x \<in> {p \<in> set m. timestamp (snd p) < now}" using kv by simp
      then show False using a by (rule_tac notE [OF a]) (rule imageI)
    qed
  next
    assume b: "\<not> timestamp (snd x) < now"
    show "fst x \<notin> fst ` {p \<in> set m. timestamp (snd p) < now}"
    proof
      assume "fst x \<in> fst ` {p \<in> set m. timestamp (snd p) < now}"
      then obtain p where p: "p \<in> set m" "timestamp (snd p) < now" "fst x = fst p"
        by blast
      have "(fst x, snd x) \<in> set m"
        using kv by simp
      moreover have "(fst x, snd p) \<in> set m"
        using p(1) by (simp only: p(3) prod.collapse)
      ultimately have "snd x = snd p"
        using assms by (meson eq_key_imp_eq_value)
      then show False using b p by simp
    qed
  qed
  then have "filter (\<lambda>x. fst x \<notin> fst ` {p \<in> set m. timestamp (snd p) < now}) m
               = filter (\<lambda>x. \<not> timestamp (snd x) < now) m"
    by (rule filter_cong [OF refl])
  then show ?thesis
    using sweep_fold [of now m m] by (simp add: case_prod_unfold)
qed

lemma clearExpiredCache_filter:
  "distinct (map fst (gameCache s)) \<Longrightarrow>
   clearExpiredCache now s =
     s\<lparr>gameCache := filter (\<lambda>(k, v). \<not> timestamp v < now) (gameCache s)\<rparr>"
  by (simp add: clearExpiredCache_def sweep_distinct)


lemma map_of_filter_value:
  "distinct (map fst m) \<Longrightarrow>
   map_of (filter (\<lambda>(k, v). Q v) m) k =
     (case map_of m k of None \<Rightarrow> None | Some v \<Rightarrow> if Q v then Some v else None)"
proof (induction m)
  case Nil
  show ?case by simp
next
  case (Cons x m)
  obtain k' v' where x: "x = (k', v')" by (cases x)
  have notin: "k' \<notin> fst ` set m" using Cons.prems x by simp
  then have none: "map_of m k' = None"
    by (simp add: map_of_eq_None_iff)
  have "set (filter (\<lambda>(k, v). Q v) m) \<subseteq> set m"
    by simp
  then have "k' \<notin> fst ` set (filter (\<lambda>(k, v). Q v) m)"
    using notin by blast
  then have nonef: "map_of (filter (\<lambda>(k, v). Q v) m) k' = None"
    by (simp add: map_of_eq_None_iff)
  have IH: "map_of (filter (\<lambda>(k, v). Q v) m) k =
     (case map_of m k of None \<Rightarrow> None | Some v \<Rightarrow> if Q v then Some v else None)"
    using Cons by simp
  show ?case
  proof (cases "k = k'")
    case True
    then show ?thesis using x none nonef by simp
  next
    case False
    then show ?thesis using x IH by simp
  qed
qed

lemma map_of_clearExpiredCache:
  "distinct (map fst (gameCache s)) \<Longrightarrow>
   map_of (gameCache (clearExpiredCache now s)) k =
     (case map_of (gameCache s) k of
        None \<Rightarrow> None
      | Some v \<Rightarrow> if timestamp v < now then None else Some v)"
  by (simp add: clearExpiredCache_filter map_of_filter_value split: option.splits)

lemma distinct_clearExpiredCache:
  "distinct (map fst (gameCache s)) \<Longrightarrow> distinct (map fst (gameCache (clearExpiredCache now s)))"
  by (simp add: clearExpiredCache_filter distinct_map_filter)

lemma distinct_cache_step:
  "distinct (map fst (gameCache s)) \<Longrightarrow> distinct (map fst (gameCache (cache_step op s)))"
  by (cases "(op, s)" rule: cache_step.cases)
     (simp_all add: getGameCache_def cacheGameData_def distinct_clearExpiredCache Let_def
                 distinct_update distinct_delete split: option.splits)

text \<open>What one cache operation, and a run of them, does to the entry under a key that no
  operation of the run writes.\<close>

lemma absent_cache_step:
  assumes "distinct (map fst (gameCache s))" "map_of (gameCache s) k = None" "\<not> is_put_on k op"
  shows "map_of (gameCache (cache_step op s)) k = None"
proof (cases "(op, s)" rule: cache_step.cases)
  case (1 now k' s')
  then show ?thesis
    using assms by (simp add: getGameCache_def delete_conv' split: option.splits)
next
  case (2 now k' d ts s')
  then show ?thesis
    using assms by (simp add: cacheGameData_def Let_def update_conv')
next
  case (3 now s')
  then show ?thesis
    using assms by (simp add: map_of_clearExpiredCache)
qed

lemma absent_cache_run:
  "distinct (map fst (gameCache s)) \<Longrightarrow> map_of (gameCache s) k = None \<Longrightarrow>
   \<forall>op \<in> set ops. \<not> is_put_on k op \<Longrightarrow>
   map_of (gameCache (fold cache_step ops s)) k = None"
proof (induction ops arbitrary: s)
  case Nil
  then show ?case by simp
next
  case (Cons op ops)
  have "map_of (gameCache (fold cache_step ops (cache_step op s))) k = None"
  proof (rule Cons.IH)
    show "distinct (map fst (gameCache (cache_step op s)))"
      using Cons.prems(1) by (rule distinct_cache_step)
    show "map_of (gameCache (cache_step op s)) k = None"
      using Cons.prems by (intro absent_cache_step) simp_all
    show "\<forall>op \<in> set ops. \<not> is_put_on k op"
      using Cons.prems(3) by simp
  qed
  then show ?case by simp
qed

lemma live_cache_step:
  assumes "distinct (map fst (gameCache s))" "map_of (gameCache s) k = Some e"
    "\<not> is_put_on k op"
  shows "map_of (gameCache (cache_step op s)) k =
           (if fst op \<le> timestamp e then Some e else map_of (gameCache (cache_step op s)) k)"
    and "map_of (gameCache (cache_step op s)) k = None \<or>
         map_of (gameCache (cache_step op s)) k = Some e"
proof -
  have "(fst op \<le> timestamp e \<longrightarrow> map_of (gameCache (cache_step op s)) k = Some e) \<and>
        (map_of (gameCache (cache_step op s)) k = None \<or>
         map_of (gameCache (cache_step op s)) k = Some e)"
  proof (cases "(op, s)" rule: cache_step.cases)
    case (1 now k' s')
    then show ?thesis
      using assms by (cases "k' = k") (simp_all add: getGameCache_def delete_conv' split: option.splits)
  next
    case (2 now k' d ts s')
    then show ?thesis
      using assms by (simp add: cacheGameData_def Let_def update_conv')
  next
    case (3 now s')
    then show ?thesis
      using assms by (simp add: map_of_clearExpiredCache)
  qed
  then show "map_of (gameCache (cache_step op s)) k =
           (if fst op \<le> timestamp e then Some e else map_of (gameCache (cache_step op s)) k)"
    and "map_of (gameCache (cache_step op s)) k = None \<or>
         map_of (gameCache (cache_step op s)) k = Some e"
    by simp_all
qed

lemma live_cache_run:
  "distinct (map fst (gameCache s)) \<Longrightarrow> map_of (gameCache s) k = Some e \<Longrightarrow>
   \<forall>op \<in> set ops. \<not> is_put_on k op \<and> fst op \<le> timestamp e \<Longrightarrow>
   map_of (gameCache (fold cache_step ops s)) k = Some e"
proof (induction ops arbitrary: s)
  case Nil
  then show ?case by simp
next
  case (Cons op ops)
  have "map_of (gameCache (fold cache_step ops (cache_step op s))) k = Some e"
  proof (rule Cons.IH)
    show "distinct (map fst (gameCache (cache_step op s)))"
      using Cons.prems(1) by (rule distinct_cache_step)
    have "\<not> is_put_on k op" "fst op \<le> timestamp e"
      using Cons.prems(3) by simp_all
    then show "map_of (gameCache (cache_step op s)) k = Some e"
      using live_cache_step(1) [OF Cons.prems(1) Cons.prems(2), of op] by simp
    show "\<forall>op \<in> set ops. \<not> is_put_on k op \<and> fst op \<le> timestamp e"
      using Cons.prems(3) by simp
  qed
  then show ?case by simp
qed

lemma either_cache_run:
  "distinct (map fst (gameCache s)) \<Longrightarrow> map_of (gameCache s) k = Some e \<Longrightarrow>
   \<forall>op \<in> set ops. \<not> is_put_on k op \<Longrightarrow>
   map_of (gameCache (fold cache_step ops s)) k = None \<or>
   map_of (gameCache (fold cache_step ops s)) k = Some e"
proof (induction ops arbitrary: s)
  case Nil
  then show ?case by simp
next
  case (Cons op ops)
  have d: "distinct (map fst (gameCache (cache_step op s)))"
    using Cons.prems(1) by (rule distinct_cache_step)
  have np: "\<not> is_put_on k op" and rest: "\<forall>op \<in> set ops. \<not> is_put_on k op"
    using Cons.prems(3) by simp_all
  from live_cache_step(2) [OF Cons.prems(1) Cons.prems(2) np]
  show ?case
  proof
    assume "map_of (gameCache (cache_step op s)) k = None"
    then have "map_of (gameCache (fold cache_step ops (cache_step op s))) k = None"
      using d rest by (intro absent_cache_run)
    then show ?thesis by simp
  next
    assume "map_of (gameCache (cache_step op s)) k = Some e"
    then show ?thesis
      using Cons.IH [OF d _ rest] by simp
  qed
qed

lemma distinct_cache_run:
  "distinct (map fst (gameCache s)) \<Longrightarrow> distinct (map fst (gameCache (fold cache_step ops s)))"
  by (induction ops arbitrary: s) (simp_all add: distinct_cache_step)

lemma getGameCache_absent:
  "map_of (gameCache s) k = None \<Longrightarrow> getGameCache k now s = (None, s)"
  by (simp add: getGameCache_def)

lemma getGameCache_present:
  "map_of (gameCache s) k = Some e \<Longrightarrow>
   getGameCache k now s =
     (if timestamp e < now then (None, s\<lparr>gameCache := AList.delete k (gameCache s)\<rparr>)
      else (Some e, s))"
  by (simp add: getGameCache_def)

lemma getGameCache_leaves_absent_or_live:
  "fst (getGameCache k now s) = None \<Longrightarrow> map_of (gameCache (snd (getGameCache k now s))) k = None"
  by (cases "map_of (gameCache s) k"; cases "timestamp (the (map_of (gameCache s) k)) < now")
     (simp_all add: getGameCache_def delete_conv')

text \<open>
  C1 (as amended). \<open>getGameCache\<close> compares with \<open><\<close>: when the stored entry for \<open>k\<close>
  has \<open>timestamp < now\<close> the entry is deleted from the store and absent is returned; an
  entry whose timestamp equals \<open>now\<close> is still live and is returned, with the store
  unchanged. So a get right after a put returns absent when the expiry lies in the past
  (negative TTL) and returns the entry just stored when the expiry equals the current
  moment (TTL of zero).
\<close>

theorem getGameCache_lazy_expiry:
  "(map_of (gameCache s) k = Some e \<and> timestamp e < now \<longrightarrow>
      getGameCache k now s = (None, s\<lparr>gameCache := AList.delete k (gameCache s)\<rparr>) \<and>
      map_of (gameCache (snd (getGameCache k now s))) k = None) \<and>
   (map_of (gameCache s) k = Some e \<and> timestamp e = now \<longrightarrow>
      getGameCache k now s = (Some e, s)) \<and>
   fst (getGameCache k now (snd (cacheGameData k v ts s))) =
     (if ts < now then None
      else Some \<lparr>cache_id = currentId s, key = k, data = v, timestamp = ts\<rparr>)"
  by (simp add: getGameCache_def cacheGameData_def Let_def update_conv' delete_conv')

theorem getGameCache_lazy_expiry_witness:
  "map_of (gameCache (snd (cacheGameData ''k'' ''v'' 5 MemStorage_new))) ''k''
     = Some \<lparr>cache_id = 1, key = ''k'', data = ''v'', timestamp = 5\<rparr> \<and>
   getGameCache ''k'' 9 (snd (cacheGameData ''k'' ''v'' 5 MemStorage_new))
     = (None, \<lparr>gameCache = [], users = [], favorites = [], currentId = 2, userId_next = 1,
               favoriteId = 1\<rparr>) \<and>
   getGameCache ''k'' 5 (snd (cacheGameData ''k'' ''v'' 5 MemStorage_new))
     = (Some \<lparr>cache_id = 1, key = ''k'', data = ''v'', timestamp = 5\<rparr>,
        snd (cacheGameData ''k'' ''v'' 5 MemStorage_new)) \<and>
   fst (getGameCache ''k'' 9 (snd (cacheGameData ''k'' ''v'' (9 - 1) MemStorage_new))) = None"
proof -
  let ?e = "\<lparr>cache_id = 1, key = ''k'', data = ''v'', timestamp = 5::int\<rparr>"
  let ?s = "snd (cacheGameData ''k'' ''v'' 5 (MemStorage_new :: string MemStorage))"
  have h: "map_of (gameCache ?s) ''k'' = Some ?e"
    by (simp add: cacheGameData_def Let_def MemStorage_new_def)
  have a: "getGameCache ''k'' 9 ?s = (None, ?s\<lparr>gameCache := AList.delete ''k'' (gameCache ?s)\<rparr>)"
    using h getGameCache_lazy_expiry [of ?s "''k''" ?e 9] by simp
  have b: "getGameCache ''k'' 5 ?s = (Some ?e, ?s)"
    using h getGameCache_lazy_expiry [of ?s "''k''" ?e 5] by simp
  have c: "fst (getGameCache ''k'' 9 (snd (cacheGameData ''k'' ''v'' (9 - 1) (MemStorage_new :: string MemStorage)))) = None"
    using getGameCache_lazy_expiry [of "MemStorage_new :: string MemStorage" "''k''" ?e 9 "''v''" "9 - 1"]
    by simp
  show ?thesis
    using h a b c by (simp add: cacheGameData_def Let_def MemStorage_new_def)
qed

text \<open>The claim as stated fails at a TTL of zero: put with expiry \<open>100 + 0\<close>, get at
  moment \<open>100\<close>; the entry comes back.\<close>

theorem getGameCache_expiry_now_counterexample:
  "fst (getGameCache ''k'' 100 (snd (cacheGameData ''k'' ''v'' (100 + 0) MemStorage_new)))
     = Some \<lparr>cache_id = 1, key = ''k'', data = ''v'', timestamp = 100\<rparr>"
  by (simp add: getGameCache_def cacheGameData_def Let_def MemStorage_new_def)

text \<open>
  C2. After \<open>cacheGameData k v (now + t)\<close>, let any operations follow that do not put on
  \<open>k\<close> (gets of any key, sweeps, puts on other keys), each at a moment no later than the
  moment \<open>m\<close> of the get that is observed. That get returns the entry holding \<open>v\<close> when
  \<open>m \<le> now + t\<close> (so at every moment before the expiry) and absent when \<open>now + t < m\<close>.
  Once a get has found the entry expired, every later get returns absent, at whatever
  moment and after whatever operations, as long as none of them is a put on \<open>k\<close>. The
  statement holds for every \<open>t\<close>, in particular for \<open>t \<ge> 0\<close>.
\<close>

theorem put_then_get_until_expiry:
  assumes "distinct (map fst (gameCache s))"
    and "\<forall>op \<in> set ops. \<not> is_put_on k op \<and> fst op \<le> m"
  shows "fst (getGameCache k m (fold cache_step ops (snd (cacheGameData k v (now + t) s)))) =
           (if m \<le> now + t
            then Some \<lparr>cache_id = currentId s, key = k, data = v, timestamp = now + t\<rparr>
            else None) \<and>
         (now + t < m \<longrightarrow>
            (\<forall>ops' m'. (\<forall>op \<in> set ops'. \<not> is_put_on k op) \<longrightarrow>
               fst (getGameCache k m'
                     (fold cache_step ops'
                       (snd (getGameCache k m
                          (fold cache_step ops (snd (cacheGameData k v (now + t) s))))))) = None))"
proof -
  let ?e = "\<lparr>cache_id = currentId s, key = k, data = v, timestamp = now + t\<rparr>"
  let ?s1 = "snd (cacheGameData k v (now + t) s)"
  let ?s2 = "fold cache_step ops ?s1"
  have d1: "distinct (map fst (gameCache ?s1))"
    using assms(1) by (simp add: cacheGameData_def Let_def distinct_update)
  have e1: "map_of (gameCache ?s1) k = Some ?e"
    by (simp add: cacheGameData_def Let_def update_conv')
  have np: "\<forall>op \<in> set ops. \<not> is_put_on k op"
    using assms(2) by simp
  have d2: "distinct (map fst (gameCache ?s2))"
    using d1 by (rule distinct_cache_run)
  have first: "fst (getGameCache k m ?s2) = (if m \<le> now + t then Some ?e else None)"
  proof (cases "m \<le> now + t")
    case True
    then have "\<forall>op \<in> set ops. \<not> is_put_on k op \<and> fst op \<le> timestamp ?e"
      using assms(2) by auto
    then have "map_of (gameCache ?s2) k = Some ?e"
      using d1 e1 by (intro live_cache_run)
    then show ?thesis
      using True by (simp add: getGameCache_present)
  next
    case False
    from either_cache_run [OF d1 e1 np]
    show ?thesis
    proof
      assume "map_of (gameCache ?s2) k = None"
      then show ?thesis using False by (simp add: getGameCache_absent)
    next
      assume "map_of (gameCache ?s2) k = Some ?e"
      then show ?thesis using False by (simp add: getGameCache_present)
    qed
  qed
  have second: "fst (getGameCache k m' (fold cache_step ops' (snd (getGameCache k m ?s2)))) = None"
    if late: "now + t < m" and np': "\<forall>op \<in> set ops'. \<not> is_put_on k op" for ops' m'
  proof -
    have "fst (getGameCache k m ?s2) = None"
      using first late by simp
    then have "map_of (gameCache (snd (getGameCache k m ?s2))) k = None"
      by (rule getGameCache_leaves_absent_or_live)
    moreover have "distinct (map fst (gameCache (snd (getGameCache k m ?s2))))"
      using distinct_cache_step [OF d2, of "(m, Get k)"] by simp
    ultimately have "map_of (gameCache (fold cache_step ops' (snd (getGameCache k m ?s2)))) k = None"
      using np' by (intro absent_cache_run)
    then show ?thesis
      by (simp add: getGameCache_absent)
  qed
  show ?thesis
    using first second by blast
qed

theorem put_then_get_until_expiry_witness:
  "distinct (map fst (gameCache (MemStorage_new :: string MemStorage))) \<and>
   list_all (\<lambda>op. \<not> is_put_on ''k'' op \<and> fst op \<le> 7)
     [(3, Get ''k''), (4, Sweep), (5, Put ''j'' ''w'' 50 :: string cache_op)] \<and>
   fst (getGameCache ''k'' 7
         (fold cache_step [(3, Get ''k''), (4, Sweep), (5, Put ''j'' ''w'' 50)]
            (snd (cacheGameData ''k'' ''v'' (0 + 10) MemStorage_new))))
     = Some \<lparr>cache_id = 1, key = ''k'', data = ''v'', timestamp = 10\<rparr> \<and>
   fst (getGameCache ''k'' 12
         (fold cache_step [(3, Get ''k''), (4, Sweep), (5, Put ''j'' ''w'' 50)]
            (snd (cacheGameData ''k'' ''v'' (0 + 10) MemStorage_new)))) = None \<and>
   fst (getGameCache ''k'' 1
         (fold cache_step [(13, Sweep), (2, Get ''k'')]
            (snd (getGameCache ''k'' 12
               (fold cache_step [(3, Get ''k''), (4, Sweep), (5, Put ''j'' ''w'' 50)]
                  (snd (cacheGameData ''k'' ''v'' (0 + 10) MemStorage_new))))))) = None"
proof -
  let ?ops = "[(3, Get ''k''), (4, Sweep), (5, Put ''j'' ''w'' 50)] :: (int \<times> string cache_op) list"
  let ?ops' = "[(13, Sweep), (2, Get ''k'')] :: (int \<times> string cache_op) list"
  have d: "distinct (map fst (gameCache (MemStorage_new :: string MemStorage)))"
    by (simp add: MemStorage_new_def)
  have h7: "\<forall>op \<in> set ?ops. \<not> is_put_on ''k'' op \<and> fst op \<le> 7"
    by simp
  have h12: "\<forall>op \<in> set ?ops. \<not> is_put_on ''k'' op \<and> fst op \<le> 12"
    by simp
  have h': "\<forall>op \<in> set ?ops'. \<not> is_put_on ''k'' op"
    by simp
  have a: "fst (getGameCache ''k'' 7 (fold cache_step ?ops
             (snd (cacheGameData ''k'' ''v'' (0 + 10) MemStorage_new))))
           = Some \<lparr>cache_id = 1, key = ''k'', data = ''v'', timestamp = 10\<rparr>"
    using put_then_get_until_expiry [OF d h7, of "''v''" 0 10] by (simp add: MemStorage_new_def)
  have b: "fst (getGameCache ''k'' 12 (fold cache_step ?ops
             (snd (cacheGameData ''k'' ''v'' (0 + 10) MemStorage_new)))) = None"
    using put_then_get_until_expiry [OF d h12, of "''v''" 0 10] by simp
  have c: "fst (getGameCache ''k'' 1 (fold cache_step ?ops'
             (snd (getGameCache ''k'' 12 (fold cache_step ?ops
                (snd (cacheGameData ''k'' ''v'' (0 + 10) MemStorage_new))))))) = None"
  proof -
    have late: "(0::int) + 10 < 12" by simp
    from put_then_get_until_expiry [OF d h12, of "''v''" 0 10] late
    have "\<forall>ops' m'. (\<forall>op \<in> set ops'. \<not> is_put_on ''k'' op) \<longrightarrow>
            fst (getGameCache ''k'' m' (fold cache_step ops'
              (snd (getGameCache ''k'' 12 (fold cache_step ?ops
                (snd (cacheGameData ''k'' ''v'' (0 + 10) (MemStorage_new :: string MemStorage)))))))) = None"
      by blast
    then show ?thesis using h' by blast
  qed
  show ?thesis
    using d h7 a b c by simp
qed

text \<open>
  C3 (as amended). After \<open>clearExpiredCache\<close> at moment \<open>now\<close> the cache holds no entry
  with \<open>timestamp < now\<close>; every entry with \<open>timestamp \<ge> now\<close> (an entry that expires at
  \<open>now\<close> exactly included) is still present and unchanged, in the same order, and nothing
  else in the store changes.
\<close>

theorem clearExpiredCache_sweep:
  assumes "distinct (map fst (gameCache s))"
  shows "(\<forall>k e. map_of (gameCache (clearExpiredCache now s)) k = Some e \<longrightarrow>
            now \<le> timestamp e \<and> map_of (gameCache s) k = Some e) \<and>
         (\<forall>k e. map_of (gameCache s) k = Some e \<and> now \<le> timestamp e \<longrightarrow>
            map_of (gameCache (clearExpiredCache now s)) k = Some e) \<and>
         clearExpiredCache now s =
           s\<lparr>gameCache := filter (\<lambda>(k, e). now \<le> timestamp e) (gameCache s)\<rparr>"
proof (intro conjI allI impI)
  fix k e
  assume "map_of (gameCache (clearExpiredCache now s)) k = Some e"
  then have *: "(case map_of (gameCache s) k of None \<Rightarrow> None
                 | Some v \<Rightarrow> if timestamp v < now then None else Some v) = Some e"
    using assms by (simp only: map_of_clearExpiredCache)
  show "now \<le> timestamp e"
    using * by (cases "map_of (gameCache s) k") (simp_all split: if_splits)
  show "map_of (gameCache s) k = Some e"
    using * by (cases "map_of (gameCache s) k") (simp_all split: if_splits)
next
  fix k e
  assume "map_of (gameCache s) k = Some e \<and> now \<le> timestamp e"
  then show "map_of (gameCache (clearExpiredCache now s)) k = Some e"
    using assms by (simp add: map_of_clearExpiredCache del: map_of_eq_Some_iff)
next
  show "clearExpiredCache now s =
           s\<lparr>gameCache := filter (\<lambda>(k, e). now \<le> timestamp e) (gameCache s)\<rparr>"
    using assms by (simp add: clearExpiredCache_filter not_less)
qed

theorem clearExpiredCache_sweep_witness:
  "distinct (map fst (gameCache
      (snd (cacheGameData ''b'' ''w'' 10 (snd (cacheGameData ''a'' ''v'' 5 MemStorage_new)))))) \<and>
   map_of (gameCache (clearExpiredCache 10
      (snd (cacheGameData ''b'' ''w'' 10 (snd (cacheGameData ''a'' ''v'' 5 MemStorage_new))))))
      ''b'' = Some \<lparr>cache_id = 2, key = ''b'', data = ''w'', timestamp = 10\<rparr> \<and>
   gameCache (clearExpiredCache 10
      (snd (cacheGameData ''b'' ''w'' 10 (snd (cacheGameData ''a'' ''v'' 5 MemStorage_new)))))
     = [(''b'', \<lparr>cache_id = 2, key = ''b'', data = ''w'', timestamp = 10\<rparr>)]"
proof -
  let ?s = "snd (cacheGameData ''b'' ''w'' 10
                  (snd (cacheGameData ''a'' ''v'' 5 (MemStorage_new :: string MemStorage))))"
  let ?e = "\<lparr>cache_id = 2, key = ''b'', data = ''w'', timestamp = 10::int\<rparr>"
  have d: "distinct (map fst (gameCache ?s))"
    by (simp add: cacheGameData_def Let_def MemStorage_new_def)
  have h: "map_of (gameCache ?s) ''b'' = Some ?e \<and> (10::int) \<le> timestamp ?e"
    by (simp add: cacheGameData_def Let_def MemStorage_new_def)
  have c: "gameCache ?s = [(''a'', \<lparr>cache_id = 1, key = ''a'', data = ''v'', timestamp = 5\<rparr>),
                           (''b'', ?e)]"
    by (simp add: cacheGameData_def Let_def MemStorage_new_def)
  note T = clearExpiredCache_sweep [OF d, of 10]
  have "map_of (gameCache (clearExpiredCache 10 ?s)) ''b'' = Some ?e"
    using T h by blast
  moreover have "gameCache (clearExpiredCache 10 ?s) = [(''b'', ?e)]"
    using T c by simp
  ultimately show ?thesis
    using d by simp
qed

text \<open>The claim as stated fails for an entry that expires at the moment of the sweep:
  it has \<open>expiresAt \<le> now\<close> and is still in the cache afterwards.\<close>

theorem clearExpiredCache_keeps_expiry_now_counterexample:
  "map_of (gameCache (clearExpiredCache 100
      (snd (cacheGameData ''k'' ''v'' 100 MemStorage_new)))) ''k''
     = Some \<lparr>cache_id = 1, key = ''k'', data = ''v'', timestamp = 100\<rparr>"
  by (simp add: clearExpiredCache_def cacheGameData_def Let_def MemStorage_new_def)

section \<open>Favorites: what the operations do to a user's list\<close>

lemma filter_length_eq_iff:
  "(length (filter P xs) = length xs) = (\<forall>x \<in> set xs. P x)"
proof
  assume eq: "length (filter P xs) = length xs"
  show "\<forall>x \<in> set xs. P x"
  proof
    fix x assume "x \<in> set xs"
    show "P x"
    proof (rule ccontr)
      assume "\<not> P x"
      with \<open>x \<in> set xs\<close> have "length (filter P xs) < length xs"
        by (rule length_filter_less)
      with eq show False by simp
    qed
  qed
next
  assume "\<forall>x \<in> set xs. P x"
  then show "length (filter P xs) = length xs" by simp
qed

lemma addFavorite_fst:
  "fst (addFavorite date fd s) =
     \<lparr>fav_id = favoriteId s, userId = in_userId fd, gameId = in_gameId fd,
      gameName = in_gameName fd, gameImage = or_null (in_gameImage fd), addedAt = date\<rparr>"
  by (simp add: addFavorite_def Let_def)

lemma addFavorite_favorites:
  "map_of (favorites (snd (addFavorite date fd s))) =
     (map_of (favorites s))
       (in_userId fd \<mapsto> getUserFavorites (in_userId fd) s @ [fst (addFavorite date fd s)])"
  by (cases "map_of (favorites s) (in_userId fd)")
     (simp_all add: addFavorite_def Let_def update_conv' getUserFavorites_def)

lemma getUserFavorites_addFavorite:
  "getUserFavorites u (snd (addFavorite date fd s)) =
     (if u = in_userId fd then getUserFavorites u s @ [fst (addFavorite date fd s)]
      else getUserFavorites u s)"
  by (simp add: getUserFavorites_def [of u] addFavorite_favorites)

lemma addFavorite_users:
  "users (snd (addFavorite date fd s)) =
     (case map_of (users s) (in_userId fd) of
        None \<Rightarrow> users s
      | Some user \<Rightarrow>
          AList.update (user_id user)
            (user\<lparr>favoriteGames :=
               Some ((case favoriteGames user of None \<Rightarrow> [] | Some l \<Rightarrow> l) @ [in_gameId fd])\<rparr>)
            (AList.update (in_userId fd)
               (user\<lparr>favoriteGames :=
                  Some ((case favoriteGames user of None \<Rightarrow> [] | Some l \<Rightarrow> l) @ [in_gameId fd])\<rparr>)
               (users s)))"
  by (simp add: addFavorite_def Let_def split: option.splits)

lemma addFavorite_counters:
  "userId_next (snd (addFavorite date fd s)) = userId_next s"
  "favoriteId (snd (addFavorite date fd s)) = favoriteId s + 1"
  "currentId (snd (addFavorite date fd s)) = currentId s"
  "gameCache (snd (addFavorite date fd s)) = gameCache s"
  by (simp_all add: addFavorite_def Let_def)

lemma removeFavorite_noop:
  assumes "\<forall>f \<in> set (getUserFavorites uid s). gameId f \<noteq> gid"
  shows "removeFavorite uid gid s = (False, s)"
proof (cases "map_of (favorites s) uid")
  case None
  then show ?thesis by (simp add: removeFavorite_def)
next
  case (Some l)
  then have "length (filter (\<lambda>fav. gameId fav \<noteq> gid) l) = length l"
    using assms by (simp add: getUserFavorites_def)
  then show ?thesis
    using Some by (simp add: removeFavorite_def Let_def)
qed

lemma removeFavorite_removes:
  assumes "\<exists>f \<in> set (getUserFavorites uid s). gameId f = gid"
  shows "removeFavorite uid gid s =
    (True,
     s\<lparr>favorites :=
          AList.update uid (filter (\<lambda>fav. gameId fav \<noteq> gid) (getUserFavorites uid s)) (favorites s),
        users :=
          (case map_of (users s) uid of
             None \<Rightarrow> users s
           | Some user \<Rightarrow>
               (case favoriteGames user of
                  None \<Rightarrow> users s
                | Some games \<Rightarrow>
                    AList.update (user_id user)
                      (user\<lparr>favoriteGames := Some (filter (\<lambda>i. i \<noteq> gid) games)\<rparr>)
                      (AList.update uid
                         (user\<lparr>favoriteGames := Some (filter (\<lambda>i. i \<noteq> gid) games)\<rparr>)
                         (users s))))\<rparr>)"
proof (cases "map_of (favorites s) uid")
  case None
  then show ?thesis using assms by (simp add: getUserFavorites_def)
next
  case (Some l)
  then have l: "getUserFavorites uid s = l"
    by (simp add: getUserFavorites_def)
  have "length (filter (\<lambda>fav. gameId fav \<noteq> gid) l) \<noteq> length l"
    using assms l by (simp add: filter_length_eq_iff)
  then show ?thesis
    using Some l by (simp add: removeFavorite_def Let_def split: option.splits)
qed

lemma removeFavorite_fst:
  "fst (removeFavorite uid gid s) = (\<exists>f \<in> set (getUserFavorites uid s). gameId f = gid)"
proof (cases "\<exists>f \<in> set (getUserFavorites uid s). gameId f = gid")
  case True
  then show ?thesis by (simp add: removeFavorite_removes)
next
  case False
  then have "removeFavorite uid gid s = (False, s)"
    by (intro removeFavorite_noop) simp
  then show ?thesis using False by simp
qed

lemma getUserFavorites_removeFavorite:
  "getUserFavorites u (snd (removeFavorite uid gid s)) =
     (if u = uid then filter (\<lambda>fav. gameId fav \<noteq> gid) (getUserFavorites u s)
      else getUserFavorites u s)"
proof (cases "\<exists>f \<in> set (getUserFavorites uid s). gameId f = gid")
  case True
  then show ?thesis
    by (simp add: removeFavorite_removes getUserFavorites_def [of u] update_conv')
next
  case False
  then have "removeFavorite uid gid s = (False, s)"
    by (intro removeFavorite_noop) simp
  then show ?thesis using False by simp
qed

text \<open>
  C7. Favorites round-trip. When the list of user \<open>u\<close> holds no favorite with game \<open>g\<close>,
  after \<open>addFavorite(u, g, name, null)\<close> the list holds exactly one entry with
  \<open>gameId = g\<close>, the record just created; \<open>removeFavorite(u, g)\<close> then returns true and
  leaves no entry with \<open>gameId = g\<close>; a second \<open>removeFavorite(u, g)\<close> returns false.
  The statement needs no hypothesis on the user map, so it holds in particular when the
  user exists.
\<close>

theorem favorites_round_trip:
  fixes s :: "'d MemStorage"
  defines "fd \<equiv> \<lambda>u g name. \<lparr>in_userId = u, in_gameId = g, in_gameName = name, in_gameImage = None\<rparr>"
  assumes "\<forall>f \<in> set (getUserFavorites u s). gameId f \<noteq> g"
  shows "filter (\<lambda>f. gameId f = g) (getUserFavorites u (snd (addFavorite date (fd u g name) s)))
           = [fst (addFavorite date (fd u g name) s)] \<and>
         fst (removeFavorite u g (snd (addFavorite date (fd u g name) s))) = True \<and>
         (\<forall>f \<in> set (getUserFavorites u
                (snd (removeFavorite u g (snd (addFavorite date (fd u g name) s))))).
            gameId f \<noteq> g) \<and>
         fst (removeFavorite u g
                (snd (removeFavorite u g (snd (addFavorite date (fd u g name) s))))) = False"
proof -
  let ?s1 = "snd (addFavorite date (fd u g name) s)"
  let ?fav = "fst (addFavorite date (fd u g name) s)"
  let ?s2 = "snd (removeFavorite u g ?s1)"
  have uid: "in_userId (fd u g name) = u" and gid: "gameId ?fav = g"
    by (simp_all add: fd_def addFavorite_fst)
  have favs1: "getUserFavorites u ?s1 = getUserFavorites u s @ [?fav]"
    using uid by (simp add: getUserFavorites_addFavorite)
  have none: "filter (\<lambda>f. gameId f = g) (getUserFavorites u s) = []"
    using assms(2) by simp
  have one: "filter (\<lambda>f. gameId f = g) (getUserFavorites u ?s1) = [?fav]"
    using none gid by (simp add: favs1)
  have rm: "fst (removeFavorite u g ?s1) = True"
    using gid by (simp add: removeFavorite_fst favs1)
  have favs2: "getUserFavorites u ?s2 = filter (\<lambda>fav. gameId fav \<noteq> g) (getUserFavorites u ?s1)"
    by (simp add: getUserFavorites_removeFavorite)
  have gone: "\<forall>f \<in> set (getUserFavorites u ?s2). gameId f \<noteq> g"
    by (simp add: favs2)
  have again: "fst (removeFavorite u g ?s2) = False"
    using gone by (simp add: removeFavorite_fst)
  show ?thesis
    using one rm gone again by blast
qed

theorem favorites_round_trip_witness:
  "getUserFavorites 1
     (snd (createUser ''h'' 0
        \<lparr>in_email = ''a@b'', in_username = ''a'', in_password = ''p'', in_profilePicture = None\<rparr>
        (MemStorage_new :: string MemStorage))) = [] \<and>
   filter (\<lambda>f. gameId f = 7)
     (getUserFavorites 1
        (snd (addFavorite 0
           \<lparr>in_userId = 1, in_gameId = 7, in_gameName = ''Name'', in_gameImage = None\<rparr>
           (snd (createUser ''h'' 0
              \<lparr>in_email = ''a@b'', in_username = ''a'', in_password = ''p'', in_profilePicture = None\<rparr>
              (MemStorage_new :: string MemStorage))))))
     = [\<lparr>fav_id = 1, userId = 1, gameId = 7, gameName = ''Name'', gameImage = None, addedAt = 0\<rparr>] \<and>
   fst (removeFavorite 1 7
     (snd (addFavorite 0
        \<lparr>in_userId = 1, in_gameId = 7, in_gameName = ''Name'', in_gameImage = None\<rparr>
        (snd (createUser ''h'' 0
           \<lparr>in_email = ''a@b'', in_username = ''a'', in_password = ''p'', in_profilePicture = None\<rparr>
           (MemStorage_new :: string MemStorage)))))) = True \<and>
   fst (removeFavorite 1 7
     (snd (removeFavorite 1 7
        (snd (addFavorite 0
           \<lparr>in_userId = 1, in_gameId = 7, in_gameName = ''Name'', in_gameImage = None\<rparr>
           (snd (createUser ''h'' 0
              \<lparr>in_email = ''a@b'', in_username = ''a'', in_password = ''p'', in_profilePicture = None\<rparr>
              (MemStorage_new :: string MemStorage)))))))) = False"
proof -
  let ?s = "snd (createUser ''h'' 0
        \<lparr>in_email = ''a@b'', in_username = ''a'', in_password = ''p'', in_profilePicture = None\<rparr>
        (MemStorage_new :: string MemStorage))"
  have e: "getUserFavorites 1 ?s = []"
    by (simp add: getUserFavorites_def createUser_def Let_def MemStorage_new_def)
  then have h: "\<forall>f \<in> set (getUserFavorites 1 ?s). gameId f \<noteq> 7"
    by simp
  have f: "fst (addFavorite 0
           \<lparr>in_userId = 1, in_gameId = 7, in_gameName = ''Name'', in_gameImage = None\<rparr> ?s)
     = \<lparr>fav_id = 1, userId = 1, gameId = 7, gameName = ''Name'', gameImage = None, addedAt = 0\<rparr>"
    by (simp add: addFavorite_def createUser_def Let_def MemStorage_new_def or_null_def)
  show ?thesis
    using e favorites_round_trip [OF h, of 0 "''Name''"] by (simp only: f simp_thms)
qed

text \<open>
  C8 (as amended). \<open>removeFavorite(userId, gameId)\<close> filters the list: it removes every
  Favorite of the user with that \<open>gameId\<close>, not only the first. When none matches it
  returns false and changes nothing. When at least one matches it returns true, the
  lists of the other users are untouched, and, when the user exists (with a
  \<open>favoriteGames\<close> list), every occurrence of \<open>gameId\<close> is removed from the mirrored
  list as well.
\<close>

theorem removeFavorite_removes_all_matching:
  "(\<not> (\<exists>f \<in> set (getUserFavorites uid s). gameId f = gid) \<longrightarrow>
      removeFavorite uid gid s = (False, s)) \<and>
   ((\<exists>f \<in> set (getUserFavorites uid s). gameId f = gid) \<longrightarrow>
      fst (removeFavorite uid gid s) = True \<and>
      getUserFavorites uid (snd (removeFavorite uid gid s))
        = filter (\<lambda>f. gameId f \<noteq> gid) (getUserFavorites uid s) \<and>
      (\<forall>u. u \<noteq> uid \<longrightarrow>
         getUserFavorites u (snd (removeFavorite uid gid s)) = getUserFavorites u s) \<and>
      (\<forall>user games. map_of (users s) uid = Some user \<and> favoriteGames user = Some games \<longrightarrow>
         map_of (users (snd (removeFavorite uid gid s))) uid
           = Some (user\<lparr>favoriteGames := Some (filter (\<lambda>i. i \<noteq> gid) games)\<rparr>)))"
proof (intro conjI impI allI)
  assume "\<not> (\<exists>f \<in> set (getUserFavorites uid s). gameId f = gid)"
  then show "removeFavorite uid gid s = (False, s)"
    by (intro removeFavorite_noop) simp
next
  assume "\<exists>f \<in> set (getUserFavorites uid s). gameId f = gid"
  then show "fst (removeFavorite uid gid s) = True"
    by (simp add: removeFavorite_fst)
next
  show "getUserFavorites uid (snd (removeFavorite uid gid s))
        = filter (\<lambda>f. gameId f \<noteq> gid) (getUserFavorites uid s)"
    by (simp add: getUserFavorites_removeFavorite)
next
  fix u assume "u \<noteq> uid"
  then show "getUserFavorites u (snd (removeFavorite uid gid s)) = getUserFavorites u s"
    by (simp add: getUserFavorites_removeFavorite)
next
  fix user games
  assume ex: "\<exists>f \<in> set (getUserFavorites uid s). gameId f = gid"
    and u: "map_of (users s) uid = Some user \<and> favoriteGames user = Some games"
  show "map_of (users (snd (removeFavorite uid gid s))) uid
           = Some (user\<lparr>favoriteGames := Some (filter (\<lambda>i. i \<noteq> gid) games)\<rparr>)"
    using u by (simp add: removeFavorite_removes [OF ex] update_conv')
qed

theorem removeFavorite_removes_all_matching_witness:
  "getUserFavorites 1 (snd (removeFavorite 1 7
     (snd (addFavorite 0 \<lparr>in_userId = 1, in_gameId = 8, in_gameName = ''M'', in_gameImage = None\<rparr>
     (snd (addFavorite 0 \<lparr>in_userId = 1, in_gameId = 7, in_gameName = ''N'', in_gameImage = None\<rparr>
       (snd (createUser ''h'' 0
         \<lparr>in_email = ''a@b'', in_username = ''a'', in_password = ''p'', in_profilePicture = None\<rparr>
         (MemStorage_new :: string MemStorage)))))))))
    = [\<lparr>fav_id = 2, userId = 1, gameId = 8, gameName = ''M'', gameImage = None, addedAt = 0\<rparr>] \<and>
   fst (removeFavorite 1 7
     (snd (addFavorite 0 \<lparr>in_userId = 1, in_gameId = 8, in_gameName = ''M'', in_gameImage = None\<rparr>
     (snd (addFavorite 0 \<lparr>in_userId = 1, in_gameId = 7, in_gameName = ''N'', in_gameImage = None\<rparr>
       (snd (createUser ''h'' 0
         \<lparr>in_email = ''a@b'', in_username = ''a'', in_password = ''p'', in_profilePicture = None\<rparr>
         (MemStorage_new :: string MemStorage)))))))) = True \<and>
   map_option favoriteGames (map_of (users (snd (removeFavorite 1 7
     (snd (addFavorite 0 \<lparr>in_userId = 1, in_gameId = 8, in_gameName = ''M'', in_gameImage = None\<rparr>
     (snd (addFavorite 0 \<lparr>in_userId = 1, in_gameId = 7, in_gameName = ''N'', in_gameImage = None\<rparr>
       (snd (createUser ''h'' 0
         \<lparr>in_email = ''a@b'', in_username = ''a'', in_password = ''p'', in_profilePicture = None\<rparr>
         (MemStorage_new :: string MemStorage)))))))))) 1) = Some (Some [8]) \<and>
   removeFavorite 1 9
       (snd (createUser ''h'' 0
         \<lparr>in_email = ''a@b'', in_username = ''a'', in_password = ''p'', in_profilePicture = None\<rparr>
         (MemStorage_new :: string MemStorage)))
    = (False, snd (createUser ''h'' 0
         \<lparr>in_email = ''a@b'', in_username = ''a'', in_password = ''p'', in_profilePicture = None\<rparr>
         (MemStorage_new :: string MemStorage)))"
proof -
  let ?base = "snd (createUser ''h'' 0
         \<lparr>in_email = ''a@b'', in_username = ''a'', in_password = ''p'', in_profilePicture = None\<rparr>
         (MemStorage_new :: string MemStorage))"
  let ?s = "snd (addFavorite 0 \<lparr>in_userId = 1, in_gameId = 8, in_gameName = ''M'', in_gameImage = None\<rparr>
     (snd (addFavorite 0 \<lparr>in_userId = 1, in_gameId = 7, in_gameName = ''N'', in_gameImage = None\<rparr> ?base)))"
  let ?f7 = "\<lparr>fav_id = 1, userId = 1, gameId = 7, gameName = ''N'', gameImage = None, addedAt = 0\<rparr>"
  let ?f8 = "\<lparr>fav_id = 2, userId = 1, gameId = 8, gameName = ''M'', gameImage = None, addedAt = 0\<rparr>"
  let ?u = "\<lparr>user_id = 1, email = ''a@b'', username = ''a'', password = ''h'', createdAt = 0,
             profilePicture = None, favoriteGames = Some [7, 8]\<rparr>"
  have favs: "getUserFavorites 1 ?s = [?f7, ?f8]"
    by (simp add: getUserFavorites_def addFavorite_def createUser_def Let_def
        MemStorage_new_def or_null_def)
  have usr: "map_of (users ?s) 1 = Some ?u \<and> favoriteGames ?u = Some [7, 8]"
    by (simp add: addFavorite_def createUser_def Let_def MemStorage_new_def or_null_def)
  have ex: "\<exists>f \<in> set (getUserFavorites 1 ?s). gameId f = 7"
    by (simp add: favs)
  have nex: "\<not> (\<exists>f \<in> set (getUserFavorites 1 ?base). gameId f = 9)"
    by (simp add: getUserFavorites_def createUser_def Let_def MemStorage_new_def)
  note T = removeFavorite_removes_all_matching [of 1 ?s 7]
  have a: "getUserFavorites 1 (snd (removeFavorite 1 7 ?s)) = [?f8]"
    using T ex by (simp add: favs)
  have b: "fst (removeFavorite 1 7 ?s) = True"
    using T ex by blast
  have "map_of (users (snd (removeFavorite 1 7 ?s))) 1
          = Some (?u\<lparr>favoriteGames := Some (filter (\<lambda>i. i \<noteq> 7) [7, 8])\<rparr>)"
    using T ex usr by blast
  then have c: "map_option favoriteGames (map_of (users (snd (removeFavorite 1 7 ?s))) 1)
          = Some (Some [8])"
    by simp
  have d: "removeFavorite 1 9 ?base = (False, ?base)"
    using removeFavorite_removes_all_matching [of 1 ?base 9] nex by blast
  show ?thesis
    using a b c d by blast
qed

text \<open>The claim as stated fails when a game was added twice: both records go, where the
  claim keeps the second.\<close>

theorem removeFavorite_duplicates_counterexample:
  "getUserFavorites 1
     (snd (addFavorite 0 \<lparr>in_userId = 1, in_gameId = 7, in_gameName = ''N'', in_gameImage = None\<rparr>
     (snd (addFavorite 0 \<lparr>in_userId = 1, in_gameId = 7, in_gameName = ''N'', in_gameImage = None\<rparr>
       (snd (createUser ''h'' 0
         \<lparr>in_email = ''a@b'', in_username = ''a'', in_password = ''p'', in_profilePicture = None\<rparr>
         (MemStorage_new :: string MemStorage)))))))
    = [\<lparr>fav_id = 1, userId = 1, gameId = 7, gameName = ''N'', gameImage = None, addedAt = 0\<rparr>,
       \<lparr>fav_id = 2, userId = 1, gameId = 7, gameName = ''N'', gameImage = None, addedAt = 0\<rparr>] \<and>
   getUserFavorites 1 (snd (removeFavorite 1 7
     (snd (addFavorite 0 \<lparr>in_userId = 1, in_gameId = 7, in_gameName = ''N'', in_gameImage = None\<rparr>
     (snd (addFavorite 0 \<lparr>in_userId = 1, in_gameId = 7, in_gameName = ''N'', in_gameImage = None\<rparr>
       (snd (createUser ''h'' 0
         \<lparr>in_email = ''a@b'', in_username = ''a'', in_password = ''p'', in_profilePicture = None\<rparr>
         (MemStorage_new :: string MemStorage)))))))))
    = []"
  by (simp add: getUserFavorites_def removeFavorite_def addFavorite_def createUser_def Let_def
        MemStorage_new_def or_null_def)

section \<open>The user map: identifiers in creation order\<close>

lemma update_fresh_key: "k \<notin> fst ` set al \<Longrightarrow> AList.update k v al = al @ [(k, v)]"
  by (induction al) auto

lemma map_update_same:
  "map_of al k = Some v0 \<Longrightarrow> g (k, v) = g (k, v0) \<Longrightarrow> map g (AList.update k v al) = map g al"
  by (induction al) (auto split: if_splits)

lemma users_inv_keys:
  assumes "users_inv s"
  shows "map fst (users s) = [1..userId_next s - 1]"
proof -
  have "map fst (map (\<lambda>p. (fst p, user_id (snd p))) (users s)) =
        map fst (map (\<lambda>i. (i, i)) [1..userId_next s - 1])"
    using assms by (simp only: users_inv_def)
  then show ?thesis by (simp add: comp_def)
qed

lemma users_inv_ids:
  assumes "users_inv s"
  shows "map (user_id \<circ> snd) (users s) = [1..userId_next s - 1]"
proof -
  have "map snd (map (\<lambda>p. (fst p, user_id (snd p))) (users s)) =
        map snd (map (\<lambda>i. (i, i)) [1..userId_next s - 1])"
    using assms by (simp only: users_inv_def)
  then show ?thesis by (simp add: comp_def)
qed

lemma users_inv_distinct: "users_inv s \<Longrightarrow> distinct (map fst (users s))"
  by (simp add: users_inv_keys)

lemma users_inv_fresh: "users_inv s \<Longrightarrow> userId_next s \<notin> fst ` set (users s)"
proof -
  assume a: "users_inv s"
  have "fst ` set (users s) = set (map fst (users s))" by simp
  also have "\<dots> = {1..userId_next s - 1}" using a by (simp only: users_inv_keys set_upto)
  finally show ?thesis by simp
qed

lemma users_inv_key_is_id:
  assumes "users_inv s" "(k, u) \<in> set (users s)"
  shows "user_id u = k" and "k < userId_next s"
proof -
  have "(k, user_id u) \<in> set (map (\<lambda>p. (fst p, user_id (snd p))) (users s))"
    using assms(2) by force
  then have "(k, user_id u) \<in> set (map (\<lambda>i. (i, i)) [1..userId_next s - 1])"
    using assms(1) by (simp only: users_inv_def)
  then show "user_id u = k" and "k < userId_next s" by auto
qed

lemma users_inv_map_of_id:
  assumes "users_inv s" "map_of (users s) k = Some u"
  shows "user_id u = k"
  using assms(1) map_of_SomeD [OF assms(2)] by (rule users_inv_key_is_id(1))

lemma users_inv_new: "users_inv MemStorage_new"
  by (simp add: users_inv_def MemStorage_new_def)

lemma createUser_appends:
  assumes "users_inv s"
  shows "users (snd (createUser h date ud s)) = users s @ [(userId_next s, fst (createUser h date ud s))]"
  using users_inv_fresh [OF assms] by (simp add: createUser_def Let_def update_fresh_key)

lemma createUser_facts:
  "user_id (fst (createUser h date ud s)) = userId_next s"
  "email (fst (createUser h date ud s)) = in_email ud"
  "username (fst (createUser h date ud s)) = in_username ud"
  "favoriteGames (fst (createUser h date ud s)) = Some []"
  "userId_next (snd (createUser h date ud s)) = userId_next s + 1"
  "favorites (snd (createUser h date ud s)) = favorites s"
  by (simp_all add: createUser_def Let_def)

lemma users_inv_createUser:
  assumes "users_inv s"
  shows "users_inv (snd (createUser h date ud s))"
proof -
  have n: "1 \<le> userId_next s" using assms by (simp add: users_inv_def)
  have old: "map (\<lambda>p. (fst p, user_id (snd p))) (users s) = map (\<lambda>i. (i, i)) [1..userId_next s - 1]"
    using assms by (simp add: users_inv_def)
  have "[1..userId_next s] = [1..userId_next s - 1] @ [userId_next s]"
    using n by (rule upto_rec2)
  then show ?thesis
    using n old by (simp add: users_inv_def createUser_appends [OF assms] createUser_facts)
qed

lemma users_update_existing:
  assumes "users_inv s" "map_of (users s) k = Some user" "user_id user' = user_id user"
  shows "map (\<lambda>p. (fst p, user_id (snd p)))
           (AList.update (user_id user) user' (AList.update k user' (users s)))
         = map (\<lambda>p. (fst p, user_id (snd p))) (users s)"
    and "map_of (AList.update (user_id user) user' (AList.update k user' (users s)))
         = (map_of (users s))(k \<mapsto> user')"
proof -
  have id: "user_id user = k"
    using assms(1,2) by (rule users_inv_map_of_id)
  have "map (\<lambda>p. (fst p, user_id (snd p))) (AList.update k user' (users s))
         = map (\<lambda>p. (fst p, user_id (snd p))) (users s)"
    using assms(2) by (rule map_update_same) (simp add: assms(3))
  then show "map (\<lambda>p. (fst p, user_id (snd p)))
           (AList.update (user_id user) user' (AList.update k user' (users s)))
         = map (\<lambda>p. (fst p, user_id (snd p))) (users s)"
    by (simp add: id)
  show "map_of (AList.update (user_id user) user' (AList.update k user' (users s)))
         = (map_of (users s))(k \<mapsto> user')"
    by (simp add: id update_conv')
qed

lemma users_inv_addFavorite:
  assumes "users_inv s"
  shows "users_inv (snd (addFavorite date fd s))"
proof (cases "map_of (users s) (in_userId fd)")
  case None
  then show ?thesis
    using assms by (simp add: users_inv_def addFavorite_users addFavorite_counters)
next
  case (Some user)
  show ?thesis
    using assms users_update_existing(1) [OF assms Some]
    by (simp add: users_inv_def addFavorite_users addFavorite_counters Some)
qed

lemma removeFavorite_counters:
  "userId_next (snd (removeFavorite uid gid s)) = userId_next s"
  by (cases "\<exists>f \<in> set (getUserFavorites uid s). gameId f = gid")
     (simp_all add: removeFavorite_removes removeFavorite_noop)

lemma users_inv_removeFavorite:
  assumes "users_inv s"
  shows "users_inv (snd (removeFavorite uid gid s))"
proof (cases "\<exists>f \<in> set (getUserFavorites uid s). gameId f = gid")
  case False
  then show ?thesis using assms by (simp add: removeFavorite_noop)
next
  case True
  show ?thesis
  proof (cases "map_of (users s) uid")
    case None
    then show ?thesis
      using assms by (simp add: users_inv_def removeFavorite_removes [OF True])
  next
    case (Some user)
    show ?thesis
    proof (cases "favoriteGames user")
      case None
      then show ?thesis
        using assms Some by (simp add: users_inv_def removeFavorite_removes [OF True])
    next
      case (Some games)
      show ?thesis
        using assms users_update_existing(1) [OF assms \<open>map_of (users s) uid = Some user\<close>]
        by (simp add: users_inv_def removeFavorite_removes [OF True]
              \<open>map_of (users s) uid = Some user\<close> Some)
    qed
  qed
qed

lemma users_inv_step: "users_inv s \<Longrightarrow> users_inv (user_step op s)"
  by (cases op) (simp_all add: users_inv_createUser users_inv_addFavorite users_inv_removeFavorite)

lemma users_inv_run: "users_inv s \<Longrightarrow> users_inv (fold user_step ops s)"
  by (induction ops arbitrary: s) (simp_all add: users_inv_step)

section \<open>The mirrored list of game ids\<close>

lemma mirror_inv_new: "mirror_inv MemStorage_new"
  by (simp add: mirror_inv_def MemStorage_new_def)

lemma getUserFavorites_createUser:
  "getUserFavorites k (snd (createUser h date ud s)) = getUserFavorites k s"
  by (simp add: getUserFavorites_def createUser_facts)

lemma mirror_inv_createUser:
  assumes u: "users_inv s" and m: "mirror_inv s"
  shows "mirror_inv (snd (createUser h date ud s))"
proof -
  let ?n = "userId_next s"
  let ?new = "fst (createUser h date ud s)"
  have us: "map_of (users (snd (createUser h date ud s))) = (map_of (users s))(?n \<mapsto> ?new)"
    by (simp add: createUser_def Let_def update_conv')
  have nouser: "map_of (users s) ?n = None"
    using users_inv_fresh [OF u] by (simp add: map_of_eq_None_iff)
  have nofav: "map_of (favorites s) ?n = None"
  proof (rule ccontr)
    assume "map_of (favorites s) ?n \<noteq> None"
    then have "map_of (users s) ?n \<noteq> None"
      using m by (simp add: mirror_inv_def)
    then show False using nouser by simp
  qed
  have empty: "getUserFavorites ?n s = []"
    using nofav by (simp add: getUserFavorites_def)
  have old: "favoriteGames x = Some (map gameId (getUserFavorites k s))"
    if "map_of (users s) k = Some x" for k x
    using m that by (simp add: mirror_inv_def)
  have keys: "map_of (users s) k \<noteq> None" if "map_of (favorites s) k \<noteq> None" for k
    using m that by (simp add: mirror_inv_def)
  show ?thesis
    unfolding mirror_inv_def
  proof (intro conjI allI impI)
    fix k assume "map_of (favorites (snd (createUser h date ud s))) k \<noteq> None"
    then have "map_of (users s) k \<noteq> None"
      using keys by (simp add: createUser_facts)
    then show "map_of (users (snd (createUser h date ud s))) k \<noteq> None"
      by (simp add: us)
  next
    fix k x assume a: "map_of (users (snd (createUser h date ud s))) k = Some x"
    show "favoriteGames x = Some (map gameId (getUserFavorites k (snd (createUser h date ud s))))"
    proof (cases "k = ?n")
      case True
      then have "x = ?new" using a by (simp add: us)
      then show ?thesis using True empty
        by (simp add: getUserFavorites_createUser createUser_facts)
    next
      case False
      then have "map_of (users s) k = Some x" using a by (simp add: us)
      then show ?thesis
        by (simp add: getUserFavorites_createUser old)
    qed
  qed
qed

lemma mirror_inv_addFavorite:
  assumes u: "users_inv s" and m: "mirror_inv s"
    and ex: "map_of (users s) (in_userId fd) \<noteq> None"
  shows "mirror_inv (snd (addFavorite date fd s))"
proof -
  let ?uid = "in_userId fd"
  let ?s' = "snd (addFavorite date fd s)"
  obtain user where user: "map_of (users s) ?uid = Some user"
    using ex by blast
  let ?user' = "user\<lparr>favoriteGames :=
               Some ((case favoriteGames user of None \<Rightarrow> [] | Some l \<Rightarrow> l) @ [in_gameId fd])\<rparr>"
  have old: "favoriteGames x = Some (map gameId (getUserFavorites k s))"
    if "map_of (users s) k = Some x" for k x
    using m that by (simp add: mirror_inv_def)
  have keys: "map_of (users s) k \<noteq> None" if "map_of (favorites s) k \<noteq> None" for k
    using m that by (simp add: mirror_inv_def)
  have us: "map_of (users ?s') = (map_of (users s))(?uid \<mapsto> ?user')"
    using users_update_existing(2) [OF u user, of ?user']
    by (simp add: addFavorite_users user)
  have games: "favoriteGames ?user' = Some (map gameId (getUserFavorites ?uid ?s'))"
    using old [OF user] by (simp add: getUserFavorites_addFavorite addFavorite_fst)
  show ?thesis
    unfolding mirror_inv_def
  proof (intro conjI allI impI)
    fix k assume "map_of (favorites ?s') k \<noteq> None"
    then have "k = ?uid \<or> map_of (favorites s) k \<noteq> None"
      by (simp add: addFavorite_favorites split: if_splits)
    then have "k = ?uid \<or> map_of (users s) k \<noteq> None"
      using keys by blast
    then show "map_of (users ?s') k \<noteq> None"
      by (auto simp: us)
  next
    fix k x assume a: "map_of (users ?s') k = Some x"
    show "favoriteGames x = Some (map gameId (getUserFavorites k ?s'))"
    proof (cases "k = ?uid")
      case True
      then have "x = ?user'" using a by (simp add: us)
      then show ?thesis using True games by simp
    next
      case False
      then have "map_of (users s) k = Some x" using a by (simp add: us)
      then show ?thesis
        using False by (simp add: getUserFavorites_addFavorite old)
    qed
  qed
qed

lemma mirror_inv_removeFavorite:
  assumes u: "users_inv s" and m: "mirror_inv s"
  shows "mirror_inv (snd (removeFavorite uid gid s))"
proof (cases "\<exists>f \<in> set (getUserFavorites uid s). gameId f = gid")
  case False
  then show ?thesis using m by (simp add: removeFavorite_noop)
next
  case True
  let ?s' = "snd (removeFavorite uid gid s)"
  have old: "favoriteGames x = Some (map gameId (getUserFavorites k s))"
    if "map_of (users s) k = Some x" for k x
    using m that by (simp add: mirror_inv_def)
  have keys: "map_of (users s) k \<noteq> None" if "map_of (favorites s) k \<noteq> None" for k
    using m that by (simp add: mirror_inv_def)
  have "map_of (favorites s) uid \<noteq> None"
    using True by (cases "map_of (favorites s) uid") (simp_all add: getUserFavorites_def)
  then obtain user where user: "map_of (users s) uid = Some user"
    using keys by blast
  have fg: "favoriteGames user = Some (map gameId (getUserFavorites uid s))"
    using user by (rule old)
  let ?user' = "user\<lparr>favoriteGames :=
      Some (filter (\<lambda>i. i \<noteq> gid) (map gameId (getUserFavorites uid s)))\<rparr>"
  have us: "map_of (users ?s') = (map_of (users s))(uid \<mapsto> ?user')"
    using users_update_existing(2) [OF u user, of ?user']
    by (simp add: removeFavorite_removes [OF True] user fg)
  have fs: "map_of (favorites ?s') =
      (map_of (favorites s))(uid \<mapsto> filter (\<lambda>fav. gameId fav \<noteq> gid) (getUserFavorites uid s))"
    by (simp add: removeFavorite_removes [OF True] update_conv')
  have games: "favoriteGames ?user' = Some (map gameId (getUserFavorites uid ?s'))"
    by (simp add: getUserFavorites_removeFavorite filter_map comp_def)
  show ?thesis
    unfolding mirror_inv_def
  proof (intro conjI allI impI)
    fix k assume "map_of (favorites ?s') k \<noteq> None"
    then have "k = uid \<or> map_of (favorites s) k \<noteq> None"
      by (simp add: fs split: if_splits)
    then have "k = uid \<or> map_of (users s) k \<noteq> None"
      using keys by blast
    then show "map_of (users ?s') k \<noteq> None"
      by (auto simp: us)
  next
    fix k x assume a: "map_of (users ?s') k = Some x"
    show "favoriteGames x = Some (map gameId (getUserFavorites k ?s'))"
    proof (cases "k = uid")
      case True
      then have "x = ?user'" using a by (simp add: us)
      then show ?thesis using True games by simp
    next
      case False
      then have "map_of (users s) k = Some x" using a by (simp add: us)
      then show ?thesis
        using False by (simp add: getUserFavorites_removeFavorite old)
    qed
  qed
qed

lemma invs_run:
  "users_inv s \<Longrightarrow> mirror_inv s \<Longrightarrow> adds_to_existing ops s \<Longrightarrow>
   mirror_inv (fold user_step ops s)"
proof (induction ops arbitrary: s)
  case Nil
  then show ?case by simp
next
  case (Cons op ops)
  have u': "users_inv (user_step op s)"
    using Cons.prems(1) by (rule users_inv_step)
  show ?case
  proof (cases op)
    case (CreateUser h date ud)
    have "mirror_inv (user_step op s)"
      using Cons.prems(1,2) by (simp add: CreateUser mirror_inv_createUser)
    moreover have "adds_to_existing ops (user_step op s)"
      using Cons.prems(3) by (simp add: CreateUser)
    ultimately show ?thesis
      using Cons.IH [OF u'] by simp
  next
    case (AddFavorite date fd)
    have "map_of (users s) (in_userId fd) \<noteq> None"
      using Cons.prems(3) by (simp add: AddFavorite)
    then have "mirror_inv (user_step op s)"
      using Cons.prems(1,2) by (simp add: AddFavorite mirror_inv_addFavorite)
    moreover have "adds_to_existing ops (user_step op s)"
      using Cons.prems(3) by (simp add: AddFavorite)
    ultimately show ?thesis
      using Cons.IH [OF u'] by simp
  next
    case (RemoveFavorite uid gid)
    have "mirror_inv (user_step op s)"
      using Cons.prems(1,2) by (simp add: RemoveFavorite mirror_inv_removeFavorite)
    moreover have "adds_to_existing ops (user_step op s)"
      using Cons.prems(3) by (simp add: RemoveFavorite)
    ultimately show ?thesis
      using Cons.IH [OF u'] by simp
  qed
qed

text \<open>
  C9. Mirror consistency. In every state reached from the empty store by \<open>createUser\<close>,
  \<open>addFavorite\<close> and \<open>removeFavorite\<close> calls in which every \<open>addFavorite\<close> names a user
  that exists at that point, the \<open>favoriteGames\<close> of every stored user is, element for
  element and in order, the list of the \<open>gameId\<close> fields of what \<open>getUserFavorites\<close>
  returns for that user.
\<close>

theorem favoriteGames_mirrors_favorites:
  assumes "adds_to_existing ops (MemStorage_new :: 'd MemStorage)"
  shows "\<forall>(k, u) \<in> set (users (fold user_step ops (MemStorage_new :: 'd MemStorage))).
           favoriteGames u =
             Some (map gameId
                     (getUserFavorites (user_id u)
                        (fold user_step ops (MemStorage_new :: 'd MemStorage))))"
proof -
  let ?s = "fold user_step ops (MemStorage_new :: 'd MemStorage)"
  have u: "users_inv ?s"
    using users_inv_new by (rule users_inv_run)
  have m: "mirror_inv ?s"
    using users_inv_new mirror_inv_new assms by (rule invs_run)
  have "favoriteGames x = Some (map gameId (getUserFavorites (user_id x) ?s))"
    if "(k, x) \<in> set (users ?s)" for k x
  proof -
    have "map_of (users ?s) k = Some x"
      using users_inv_distinct [OF u] that by simp
    then have "favoriteGames x = Some (map gameId (getUserFavorites k ?s))"
      using m by (simp add: mirror_inv_def)
    then show ?thesis
      using users_inv_key_is_id(1) [OF u that] by simp
  qed
  then show ?thesis by blast
qed

theorem favoriteGames_mirrors_favorites_witness:
  "adds_to_existing
     [CreateUser ''h'' 0 \<lparr>in_email = ''a@b'', in_username = ''a'', in_password = ''p'', in_profilePicture = None\<rparr>,
      AddFavorite 0 \<lparr>in_userId = 1, in_gameId = 7, in_gameName = ''N'', in_gameImage = None\<rparr>,
      AddFavorite 0 \<lparr>in_userId = 1, in_gameId = 8, in_gameName = ''M'', in_gameImage = None\<rparr>,
      RemoveFavorite 1 7,
      CreateUser ''g'' 0 \<lparr>in_email = ''c@d'', in_username = ''c'', in_password = ''q'', in_profilePicture = None\<rparr>,
      AddFavorite 0 \<lparr>in_userId = 2, in_gameId = 7, in_gameName = ''N'', in_gameImage = None\<rparr>]
     (MemStorage_new :: string MemStorage) \<and>
   list_all (\<lambda>(k, u). favoriteGames u = Some (map gameId (getUserFavorites (user_id u)
       (fold user_step
     [CreateUser ''h'' 0 \<lparr>in_email = ''a@b'', in_username = ''a'', in_password = ''p'', in_profilePicture = None\<rparr>,
      AddFavorite 0 \<lparr>in_userId = 1, in_gameId = 7, in_gameName = ''N'', in_gameImage = None\<rparr>,
      AddFavorite 0 \<lparr>in_userId = 1, in_gameId = 8, in_gameName = ''M'', in_gameImage = None\<rparr>,
      RemoveFavorite 1 7,
      CreateUser ''g'' 0 \<lparr>in_email = ''c@d'', in_username = ''c'', in_password = ''q'', in_profilePicture = None\<rparr>,
      AddFavorite 0 \<lparr>in_userId = 2, in_gameId = 7, in_gameName = ''N'', in_gameImage = None\<rparr>]
     (MemStorage_new :: string MemStorage)))))
     (users (fold user_step
     [CreateUser ''h'' 0 \<lparr>in_email = ''a@b'', in_username = ''a'', in_password = ''p'', in_profilePicture = None\<rparr>,
      AddFavorite 0 \<lparr>in_userId = 1, in_gameId = 7, in_gameName = ''N'', in_gameImage = None\<rparr>,
      AddFavorite 0 \<lparr>in_userId = 1, in_gameId = 8, in_gameName = ''M'', in_gameImage = None\<rparr>,
      RemoveFavorite 1 7,
      CreateUser ''g'' 0 \<lparr>in_email = ''c@d'', in_username = ''c'', in_password = ''q'', in_profilePicture = None\<rparr>,
      AddFavorite 0 \<lparr>in_userId = 2, in_gameId = 7, in_gameName = ''N'', in_gameImage = None\<rparr>]
     (MemStorage_new :: string MemStorage))) \<and>
   map (\<lambda>(k, u). (k, favoriteGames u)) (users (fold user_step
     [CreateUser ''h'' 0 \<lparr>in_email = ''a@b'', in_username = ''a'', in_password = ''p'', in_profilePicture = None\<rparr>,
      AddFavorite 0 \<lparr>in_userId = 1, in_gameId = 7, in_gameName = ''N'', in_gameImage = None\<rparr>,
      AddFavorite 0 \<lparr>in_userId = 1, in_gameId = 8, in_gameName = ''M'', in_gameImage = None\<rparr>,
      RemoveFavorite 1 7,
      CreateUser ''g'' 0 \<lparr>in_email = ''c@d'', in_username = ''c'', in_password = ''q'', in_profilePicture = None\<rparr>,
      AddFavorite 0 \<lparr>in_userId = 2, in_gameId = 7, in_gameName = ''N'', in_gameImage = None\<rparr>]
     (MemStorage_new :: string MemStorage)))
     = [(1, Some [8]), (2, Some [7])]"
proof -
  let ?ops = "[CreateUser ''h'' 0 \<lparr>in_email = ''a@b'', in_username = ''a'', in_password = ''p'', in_profilePicture = None\<rparr>,
      AddFavorite 0 \<lparr>in_userId = 1, in_gameId = 7, in_gameName = ''N'', in_gameImage = None\<rparr>,
      AddFavorite 0 \<lparr>in_userId = 1, in_gameId = 8, in_gameName = ''M'', in_gameImage = None\<rparr>,
      RemoveFavorite 1 7,
      CreateUser ''g'' 0 \<lparr>in_email = ''c@d'', in_username = ''c'', in_password = ''q'', in_profilePicture = None\<rparr>,
      AddFavorite 0 \<lparr>in_userId = 2, in_gameId = 7, in_gameName = ''N'', in_gameImage = None\<rparr>]"
  let ?run = "fold user_step ?ops (MemStorage_new :: string MemStorage)"
  have h: "adds_to_existing ?ops (MemStorage_new :: string MemStorage)"
    by (simp add: createUser_def addFavorite_def removeFavorite_def Let_def MemStorage_new_def
          or_null_def)
  have a: "list_all (\<lambda>(k, u). favoriteGames u = Some (map gameId (getUserFavorites (user_id u) ?run)))
             (users ?run)"
    using favoriteGames_mirrors_favorites [OF h] by (simp only: list_all_iff)
  have b: "map (\<lambda>(k, u). (k, favoriteGames u)) (users ?run) = [(1, Some [8]), (2, Some [7])]"
    by (simp add: createUser_def addFavorite_def removeFavorite_def Let_def MemStorage_new_def
          or_null_def)
  show ?thesis
    using h a b by (intro conjI)
qed

section \<open>Creating users and finding them by email\<close>

lemma find_least:
  "sorted_wrt (<) (map f xs) \<Longrightarrow>
   (find P xs = Some u) =
     (u \<in> set xs \<and> P u \<and> (\<forall>u' \<in> set xs. P u' \<longrightarrow> (f u :: int) \<le> f u'))"
proof (induction xs)
  case Nil
  show ?case by simp
next
  case (Cons x xs)
  have less: "\<forall>y \<in> set xs. f x < f y" and rest: "sorted_wrt (<) (map f xs)"
    using Cons.prems by simp_all
  note IH = Cons.IH [OF rest]
  show ?case
  proof (cases "P x")
    case True
    have "(u \<in> set (x # xs) \<and> P u \<and> (\<forall>u' \<in> set (x # xs). P u' \<longrightarrow> f u \<le> f u')) = (u = x)"
    proof
      assume a: "u \<in> set (x # xs) \<and> P u \<and> (\<forall>u' \<in> set (x # xs). P u' \<longrightarrow> f u \<le> f u')"
      then have "f u \<le> f x" using True by simp
      then have "u \<notin> set xs" using less by force
      then show "u = x" using a by simp
    next
      assume "u = x"
      then show "u \<in> set (x # xs) \<and> P u \<and> (\<forall>u' \<in> set (x # xs). P u' \<longrightarrow> f u \<le> f u')"
        using True less by force
    qed
    then show ?thesis using True by (simp add: eq_commute [of x u])
  next
    case False
    have "(u \<in> set (x # xs) \<and> P u \<and> (\<forall>u' \<in> set (x # xs). P u' \<longrightarrow> f u \<le> f u')) =
          (u \<in> set xs \<and> P u \<and> (\<forall>u' \<in> set xs. P u' \<longrightarrow> f u \<le> f u'))"
      using False by auto
    then show ?thesis using False IH by simp
  qed
qed

text \<open>
  C10. \<open>createUser\<close> has no failing branch and looks at no stored user. In every state
  reached from the empty store by any calls of \<open>createUser\<close>, \<open>addFavorite\<close> and
  \<open>removeFavorite\<close> (so after any sequence of \<open>createUser\<close> calls), the stored users
  carry the ids \<open>1, 2, ...\<close> in creation order; one more \<open>createUser\<close>, whatever its
  email and username, gets the next id, larger than every id in the store, and is
  appended to the map. \<open>getUserByEmail\<close> returns a user exactly when that user is stored,
  has the email, and has the smallest id among the stored users with that email; it
  returns absent exactly when no stored user has the email.
\<close>

theorem createUser_fresh_ids_getUserByEmail_earliest:
  fixes ops :: "user_op list"
  defines "s \<equiv> fold user_step ops (MemStorage_new :: 'd MemStorage)"
  shows "map (user_id \<circ> snd) (users s) = [1..userId_next s - 1] \<and>
         user_id (fst (createUser h date ud s)) = userId_next s \<and>
         userId_next (snd (createUser h date ud s)) = userId_next s + 1 \<and>
         users (snd (createUser h date ud s))
           = users s @ [(userId_next s, fst (createUser h date ud s))] \<and>
         (\<forall>e u. (getUserByEmail e s = Some u) =
                  (u \<in> snd ` set (users s) \<and> email u = e \<and>
                   (\<forall>u' \<in> snd ` set (users s). email u' = e \<longrightarrow> user_id u \<le> user_id u'))) \<and>
         (\<forall>e. (getUserByEmail e s = None) = (\<forall>u \<in> snd ` set (users s). email u \<noteq> e))"
proof -
  have u: "users_inv s"
    unfolding s_def using users_inv_new by (rule users_inv_run)
  have ids: "map (user_id \<circ> snd) (users s) = [1..userId_next s - 1]"
    using u by (rule users_inv_ids)
  have "sorted_wrt (<) (map user_id (map snd (users s)))"
    using ids by simp
  then have least: "(find (\<lambda>user. email user = e) (map snd (users s)) = Some x) =
     (x \<in> set (map snd (users s)) \<and> email x = e \<and>
      (\<forall>u' \<in> set (map snd (users s)). email u' = e \<longrightarrow> user_id x \<le> user_id u'))" for e x
    by (rule find_least)
  have none: "(find (\<lambda>user. email user = e) (map snd (users s)) = None) =
     (\<forall>x \<in> set (map snd (users s)). email x \<noteq> e)" for e
    by (simp only: find_None_iff) blast
  show ?thesis
    using ids least none
    by (simp add: getUserByEmail_def createUser_facts createUser_appends [OF u])
qed

theorem createUser_fresh_ids_getUserByEmail_earliest_witness:
  "map (user_id \<circ> snd) (users (fold user_step
     [CreateUser ''h'' 0 \<lparr>in_email = ''a@b'', in_username = ''a'', in_password = ''p'', in_profilePicture = None\<rparr>,
      CreateUser ''g'' 5 \<lparr>in_email = ''a@b'', in_username = ''a'', in_password = ''q'', in_profilePicture = None\<rparr>]
     (MemStorage_new :: string MemStorage))) = [1, 2] \<and>
   user_id (fst (createUser ''f'' 9
       \<lparr>in_email = ''a@b'', in_username = ''a'', in_password = ''r'', in_profilePicture = None\<rparr>
       (fold user_step
     [CreateUser ''h'' 0 \<lparr>in_email = ''a@b'', in_username = ''a'', in_password = ''p'', in_profilePicture = None\<rparr>,
      CreateUser ''g'' 5 \<lparr>in_email = ''a@b'', in_username = ''a'', in_password = ''q'', in_profilePicture = None\<rparr>]
     (MemStorage_new :: string MemStorage)))) = 3 \<and>
   getUserByEmail ''a@b'' (fold user_step
     [CreateUser ''h'' 0 \<lparr>in_email = ''a@b'', in_username = ''a'', in_password = ''p'', in_profilePicture = None\<rparr>,
      CreateUser ''g'' 5 \<lparr>in_email = ''a@b'', in_username = ''a'', in_password = ''q'', in_profilePicture = None\<rparr>]
     (MemStorage_new :: string MemStorage))
    = Some \<lparr>user_id = 1, email = ''a@b'', username = ''a'', password = ''h'', createdAt = 0,
             profilePicture = None, favoriteGames = Some []\<rparr>"
proof -
  let ?ops = "[CreateUser ''h'' 0 \<lparr>in_email = ''a@b'', in_username = ''a'', in_password = ''p'', in_profilePicture = None\<rparr>,
      CreateUser ''g'' 5 \<lparr>in_email = ''a@b'', in_username = ''a'', in_password = ''q'', in_profilePicture = None\<rparr>]"
  let ?run = "fold user_step ?ops (MemStorage_new :: string MemStorage)"
  let ?u1 = "\<lparr>user_id = 1, email = ''a@b'', username = ''a'', password = ''h'', createdAt = 0,
             profilePicture = None, favoriteGames = Some []\<rparr>"
  let ?u2 = "\<lparr>user_id = 2, email = ''a@b'', username = ''a'', password = ''g'', createdAt = 5,
             profilePicture = None, favoriteGames = Some []\<rparr>"
  note T = createUser_fresh_ids_getUserByEmail_earliest [of ?ops "''f''" 9
       "\<lparr>in_email = ''a@b'', in_username = ''a'', in_password = ''r'', in_profilePicture = None\<rparr>",
       where ?'d = string]
  have us: "users ?run = [(1, ?u1), (2, ?u2)]" and n: "userId_next ?run = 3"
    by (simp_all add: createUser_def Let_def MemStorage_new_def or_null_def)
  have "map (user_id \<circ> snd) (users ?run) = [1..userId_next ?run - 1]"
    by (rule T [THEN conjunct1])
  then have "map (user_id \<circ> snd) (users ?run) = [1..3 - 1]"
    by (simp only: n)
  then have a: "map (user_id \<circ> snd) (users ?run) = [1, 2]"
    by (simp add: upto.simps)
  have b: "user_id (fst (createUser ''f'' 9
       \<lparr>in_email = ''a@b'', in_username = ''a'', in_password = ''r'', in_profilePicture = None\<rparr>
       ?run)) = 3"
    using T [THEN conjunct2, THEN conjunct1] by (simp only: n)
  have "?u1 \<in> snd ` set (users ?run) \<and> email ?u1 = ''a@b'' \<and>
        (\<forall>u' \<in> snd ` set (users ?run). email u' = ''a@b'' \<longrightarrow> user_id ?u1 \<le> user_id u')"
    by (simp only: us) simp
  then have c: "getUserByEmail ''a@b'' ?run = Some ?u1"
    using T by blast
  show ?thesis
    using a b c by (intro conjI)
qed

section \<open>The cached endpoints: hit, miss with a failing fetch, miss with a successful fetch\<close>

lemma getGameCache_miss:
  assumes "fst (getGameCache k t s) = None"
  shows "map_of (gameCache (snd (getGameCache k t s))) k = None"
    and "k' \<noteq> k \<Longrightarrow> map_of (gameCache (snd (getGameCache k t s))) k' = map_of (gameCache s) k'"
    and "map_of (gameCache s) k = None \<Longrightarrow> snd (getGameCache k t s) = s"
    and "currentId (snd (getGameCache k t s)) = currentId s"
    and "users (snd (getGameCache k t s)) = users s"
    and "favorites (snd (getGameCache k t s)) = favorites s"
proof -
  show "map_of (gameCache (snd (getGameCache k t s))) k = None"
    using assms by (rule getGameCache_leaves_absent_or_live)
  show "map_of (gameCache (snd (getGameCache k t s))) k' = map_of (gameCache s) k'" if "k' \<noteq> k"
    using that
    by (cases "map_of (gameCache s) k") (simp_all add: getGameCache_absent getGameCache_present)
  show "snd (getGameCache k t s) = s" if "map_of (gameCache s) k = None"
    using that by (simp add: getGameCache_absent)
  show "currentId (snd (getGameCache k t s)) = currentId s"
    by (cases "map_of (gameCache s) k") (simp_all add: getGameCache_absent getGameCache_present)
  show "users (snd (getGameCache k t s)) = users s"
    by (cases "map_of (gameCache s) k") (simp_all add: getGameCache_absent getGameCache_present)
  show "favorites (snd (getGameCache k t s)) = favorites s"
    by (cases "map_of (gameCache s) k") (simp_all add: getGameCache_absent getGameCache_present)
qed

lemma getGameCache_hit:
  assumes "fst (getGameCache k t s) = Some c"
  shows "getGameCache k t s = (Some c, s)"
proof (cases "map_of (gameCache s) k")
  case None
  then show ?thesis using assms by (simp add: getGameCache_absent)
next
  case (Some e)
  then show ?thesis using assms by (simp add: getGameCache_present split: if_splits)
qed

lemma cacheGameData_stored:
  "map_of (gameCache (snd (cacheGameData k d tp s))) k
     = Some \<lparr>cache_id = currentId s, key = k, data = d, timestamp = tp\<rparr>"
  by (simp add: cacheGameData_def Let_def update_conv')

lemma games_handler_cases:
  "fst (getGameCache (games_cacheKey q) tg s) = Some c \<Longrightarrow>
     games_handler apiKey axios_get tg tp q s =
       \<lparr>response = Json (data c), upstream_calls = [], store = s\<rparr>"
  "fst (getGameCache (games_cacheKey q) tg s) = None \<Longrightarrow>
   axios_get (RAWG_API_URL @ ''/games'') (games_params apiKey q) = Inl e \<Longrightarrow>
     games_handler apiKey axios_get tg tp q s =
       \<lparr>response = Failure 500 ''Failed to fetch games'',
        upstream_calls = [(RAWG_API_URL @ ''/games'', games_params apiKey q)],
        store = snd (getGameCache (games_cacheKey q) tg s)\<rparr>"
  "fst (getGameCache (games_cacheKey q) tg s) = None \<Longrightarrow>
   axios_get (RAWG_API_URL @ ''/games'') (games_params apiKey q) = Inr d \<Longrightarrow>
     games_handler apiKey axios_get tg tp q s =
       \<lparr>response = Json d,
        upstream_calls = [(RAWG_API_URL @ ''/games'', games_params apiKey q)],
        store = snd (cacheGameData (games_cacheKey q) d (tp + 3600)
                      (snd (getGameCache (games_cacheKey q) tg s)))\<rparr>"
proof -
  show "games_handler apiKey axios_get tg tp q s =
       \<lparr>response = Json (data c), upstream_calls = [], store = s\<rparr>"
    if "fst (getGameCache (games_cacheKey q) tg s) = Some c"
    using getGameCache_hit [OF that] by (simp add: games_handler_def Let_def)
  show "games_handler apiKey axios_get tg tp q s =
       \<lparr>response = Failure 500 ''Failed to fetch games'',
        upstream_calls = [(RAWG_API_URL @ ''/games'', games_params apiKey q)],
        store = snd (getGameCache (games_cacheKey q) tg s)\<rparr>"
    if "fst (getGameCache (games_cacheKey q) tg s) = None"
      and "axios_get (RAWG_API_URL @ ''/games'') (games_params apiKey q) = Inl e"
    using that by (cases "getGameCache (games_cacheKey q) tg s") (simp add: games_handler_def Let_def)
  show "games_handler apiKey axios_get tg tp q s =
       \<lparr>response = Json d,
        upstream_calls = [(RAWG_API_URL @ ''/games'', games_params apiKey q)],
        store = snd (cacheGameData (games_cacheKey q) d (tp + 3600)
                      (snd (getGameCache (games_cacheKey q) tg s)))\<rparr>"
    if "fst (getGameCache (games_cacheKey q) tg s) = None"
      and "axios_get (RAWG_API_URL @ ''/games'') (games_params apiKey q) = Inr d"
    using that by (cases "getGameCache (games_cacheKey q) tg s") (simp add: games_handler_def Let_def)
qed

lemma game_details_handler_cases:
  "fst (getGameCache (''/games/'' @ gid) tg s) = Some c \<Longrightarrow>
     game_details_handler apiKey axios_get tg tp gid s =
       \<lparr>response = Json (data c), upstream_calls = [], store = s\<rparr>"
  "fst (getGameCache (''/games/'' @ gid) tg s) = None \<Longrightarrow>
   axios_get (RAWG_API_URL @ ''/games/'' @ gid) [(''key'', apiKey)] = Inl e \<Longrightarrow>
     game_details_handler apiKey axios_get tg tp gid s =
       \<lparr>response = Failure 500 ''Failed to fetch game details'',
        upstream_calls = [(RAWG_API_URL @ ''/games/'' @ gid, [(''key'', apiKey)])],
        store = snd (getGameCache (''/games/'' @ gid) tg s)\<rparr>"
  "fst (getGameCache (''/games/'' @ gid) tg s) = None \<Longrightarrow>
   axios_get (RAWG_API_URL @ ''/games/'' @ gid) [(''key'', apiKey)] = Inr d \<Longrightarrow>
     game_details_handler apiKey axios_get tg tp gid s =
       \<lparr>response = Json d,
        upstream_calls = [(RAWG_API_URL @ ''/games/'' @ gid, [(''key'', apiKey)])],
        store = snd (cacheGameData (''/games/'' @ gid) d (tp + 86400)
                      (snd (getGameCache (''/games/'' @ gid) tg s)))\<rparr>"
proof -
  show "game_details_handler apiKey axios_get tg tp gid s =
       \<lparr>response = Json (data c), upstream_calls = [], store = s\<rparr>"
    if "fst (getGameCache (''/games/'' @ gid) tg s) = Some c"
    using getGameCache_hit [OF that] by (simp add: game_details_handler_def Let_def)
  show "game_details_handler apiKey axios_get tg tp gid s =
       \<lparr>response = Failure 500 ''Failed to fetch game details'',
        upstream_calls = [(RAWG_API_URL @ ''/games/'' @ gid, [(''key'', apiKey)])],
        store = snd (getGameCache (''/games/'' @ gid) tg s)\<rparr>"
    if "fst (getGameCache (''/games/'' @ gid) tg s) = None"
      and "axios_get (RAWG_API_URL @ ''/games/'' @ gid) [(''key'', apiKey)] = Inl e"
    using that
    by (cases "getGameCache (''/games/'' @ gid) tg s") (simp add: game_details_handler_def Let_def)
  show "game_details_handler apiKey axios_get tg tp gid s =
       \<lparr>response = Json d,
        upstream_calls = [(RAWG_API_URL @ ''/games/'' @ gid, [(''key'', apiKey)])],
        store = snd (cacheGameData (''/games/'' @ gid) d (tp + 86400)
                      (snd (getGameCache (''/games/'' @ gid) tg s)))\<rparr>"
    if "fst (getGameCache (''/games/'' @ gid) tg s) = None"
      and "axios_get (RAWG_API_URL @ ''/games/'' @ gid) [(''key'', apiKey)] = Inr d"
    using that
    by (cases "getGameCache (''/games/'' @ gid) tg s") (simp add: game_details_handler_def Let_def)
qed

lemma search_cached_cases:
  "fst (getGameCache (''/search/'' @ query) tg s) = Some c \<Longrightarrow>
     search_cached apiKey axios_get tg tp query s =
       \<lparr>response = Json (data c), upstream_calls = [], store = s\<rparr>"
  "fst (getGameCache (''/search/'' @ query) tg s) = None \<Longrightarrow>
   axios_get (RAWG_API_URL @ ''/games'')
     [(''key'', apiKey), (''search'', query), (''page_size'', ''10'')] = Inl e \<Longrightarrow>
     search_cached apiKey axios_get tg tp query s =
       \<lparr>response = Failure 500 ''Failed to search games'',
        upstream_calls = [(RAWG_API_URL @ ''/games'',
                           [(''key'', apiKey), (''search'', query), (''page_size'', ''10'')])],
        store = snd (getGameCache (''/search/'' @ query) tg s)\<rparr>"
  "fst (getGameCache (''/search/'' @ query) tg s) = None \<Longrightarrow>
   axios_get (RAWG_API_URL @ ''/games'')
     [(''key'', apiKey), (''search'', query), (''page_size'', ''10'')] = Inr d \<Longrightarrow>
     search_cached apiKey axios_get tg tp query s =
       \<lparr>response = Json d,
        upstream_calls = [(RAWG_API_URL @ ''/games'',
                           [(''key'', apiKey), (''search'', query), (''page_size'', ''10'')])],
        store = snd (cacheGameData (''/search/'' @ query) d (tp + 1800)
                      (snd (getGameCache (''/search/'' @ query) tg s)))\<rparr>"
proof -
  show "search_cached apiKey axios_get tg tp query s =
       \<lparr>response = Json (data c), upstream_calls = [], store = s\<rparr>"
    if "fst (getGameCache (''/search/'' @ query) tg s) = Some c"
    using getGameCache_hit [OF that] by (simp add: search_cached_def Let_def)
  show "search_cached apiKey axios_get tg tp query s =
       \<lparr>response = Failure 500 ''Failed to search games'',
        upstream_calls = [(RAWG_API_URL @ ''/games'',
                           [(''key'', apiKey), (''search'', query), (''page_size'', ''10'')])],
        store = snd (getGameCache (''/search/'' @ query) tg s)\<rparr>"
    if "fst (getGameCache (''/search/'' @ query) tg s) = None"
      and "axios_get (RAWG_API_URL @ ''/games'')
             [(''key'', apiKey), (''search'', query), (''page_size'', ''10'')] = Inl e"
    using that
    by (cases "getGameCache (''/search/'' @ query) tg s") (simp add: search_cached_def Let_def)
  show "search_cached apiKey axios_get tg tp query s =
       \<lparr>response = Json d,
        upstream_calls = [(RAWG_API_URL @ ''/games'',
                           [(''key'', apiKey), (''search'', query), (''page_size'', ''10'')])],
        store = snd (cacheGameData (''/search/'' @ query) d (tp + 1800)
                      (snd (getGameCache (''/search/'' @ query) tg s)))\<rparr>"
    if "fst (getGameCache (''/search/'' @ query) tg s) = None"
      and "axios_get (RAWG_API_URL @ ''/games'')
             [(''key'', apiKey), (''search'', query), (''page_size'', ''10'')] = Inr d"
    using that
    by (cases "getGameCache (''/search/'' @ query) tg s") (simp add: search_cached_def Let_def)
qed







text \<open>
  The three handler bodies, each taken by itself, look up and store under a fixed key
  form with a fixed TTL, whatever the request: \<open>"/games/" + id\<close> for \<open>86400\<close> seconds from
  the moment the payload is stored (detail), \<open>"/search/" + query\<close> for \<open>1800\<close> seconds
  (search, for a non-empty string query), the listing key for \<open>3600\<close> seconds (listing).
  On a hit under that key the cached payload is served and no upstream call is made.
\<close>

lemma cached_handlers_fixed_key_and_ttl:
  "(fst (getGameCache (''/games/'' @ gid) tg s) = None \<and>
    axios_get (RAWG_API_URL @ ''/games/'' @ gid) [(''key'', apiKey)] = Inr d \<longrightarrow>
      store (game_details_handler apiKey axios_get tg tp gid s)
        = snd (cacheGameData (''/games/'' @ gid) d (tp + 86400)
                 (snd (getGameCache (''/games/'' @ gid) tg s))) \<and>
      map_of (gameCache (store (game_details_handler apiKey axios_get tg tp gid s)))
          (''/games/'' @ gid)
        = Some \<lparr>cache_id = currentId s, key = ''/games/'' @ gid, data = d,
                timestamp = tp + 86400\<rparr>) \<and>
   (query \<noteq> [] \<and> fst (getGameCache (''/search/'' @ query) tg s) = None \<and>
    axios_get (RAWG_API_URL @ ''/games'')
      [(''key'', apiKey), (''search'', query), (''page_size'', ''10'')] = Inr d \<longrightarrow>
      store (search_handler apiKey axios_get tg tp (Some (QStr query)) s)
        = snd (cacheGameData (''/search/'' @ query) d (tp + 1800)
                 (snd (getGameCache (''/search/'' @ query) tg s))) \<and>
      map_of (gameCache (store (search_handler apiKey axios_get tg tp (Some (QStr query)) s)))
          (''/search/'' @ query)
        = Some \<lparr>cache_id = currentId s, key = ''/search/'' @ query, data = d,
                timestamp = tp + 1800\<rparr>) \<and>
   (fst (getGameCache (games_cacheKey q) tg s) = None \<and>
    axios_get (RAWG_API_URL @ ''/games'') (games_params apiKey q) = Inr d \<longrightarrow>
      store (games_handler apiKey axios_get tg tp q s)
        = snd (cacheGameData (games_cacheKey q) d (tp + 3600)
                 (snd (getGameCache (games_cacheKey q) tg s))) \<and>
      map_of (gameCache (store (games_handler apiKey axios_get tg tp q s))) (games_cacheKey q)
        = Some \<lparr>cache_id = currentId s, key = games_cacheKey q, data = d,
                timestamp = tp + 3600\<rparr>) \<and>
   (fst (getGameCache (''/games/'' @ gid) tg s) = Some c \<longrightarrow>
      game_details_handler apiKey axios_get tg tp gid s
        = \<lparr>response = Json (data c), upstream_calls = [], store = s\<rparr>) \<and>
   (query \<noteq> [] \<and> fst (getGameCache (''/search/'' @ query) tg s) = Some c \<longrightarrow>
      search_handler apiKey axios_get tg tp (Some (QStr query)) s
        = \<lparr>response = Json (data c), upstream_calls = [], store = s\<rparr>) \<and>
   (fst (getGameCache (games_cacheKey q) tg s) = Some c \<longrightarrow>
      games_handler apiKey axios_get tg tp q s
        = \<lparr>response = Json (data c), upstream_calls = [], store = s\<rparr>)"
proof (intro conjI impI)
  assume a: "fst (getGameCache (''/games/'' @ gid) tg s) = None \<and>
    axios_get (RAWG_API_URL @ ''/games/'' @ gid) [(''key'', apiKey)] = Inr d"
  then have miss: "fst (getGameCache (''/games/'' @ gid) tg s) = None"
    and ok: "axios_get (RAWG_API_URL @ ''/games/'' @ gid) [(''key'', apiKey)] = Inr d"
    by simp_all
  show st: "store (game_details_handler apiKey axios_get tg tp gid s)
        = snd (cacheGameData (''/games/'' @ gid) d (tp + 86400)
                 (snd (getGameCache (''/games/'' @ gid) tg s)))"
    using miss ok by (simp add: game_details_handler_cases(3))
  show "map_of (gameCache (store (game_details_handler apiKey axios_get tg tp gid s)))
          (''/games/'' @ gid)
        = Some \<lparr>cache_id = currentId s, key = ''/games/'' @ gid, data = d,
                timestamp = tp + 86400\<rparr>"
    by (simp only: st cacheGameData_stored getGameCache_miss(4) [OF miss])
next
  assume a: "query \<noteq> [] \<and> fst (getGameCache (''/search/'' @ query) tg s) = None \<and>
    axios_get (RAWG_API_URL @ ''/games'')
      [(''key'', apiKey), (''search'', query), (''page_size'', ''10'')] = Inr d"
  then have ne: "query \<noteq> []" and miss: "fst (getGameCache (''/search/'' @ query) tg s) = None"
    and ok: "axios_get (RAWG_API_URL @ ''/games'')
      [(''key'', apiKey), (''search'', query), (''page_size'', ''10'')] = Inr d"
    by simp_all
  show st: "store (search_handler apiKey axios_get tg tp (Some (QStr query)) s)
        = snd (cacheGameData (''/search/'' @ query) d (tp + 1800)
                 (snd (getGameCache (''/search/'' @ query) tg s)))"
    using ne miss ok by (simp add: search_cached_cases(3))
  show "map_of (gameCache (store (search_handler apiKey axios_get tg tp (Some (QStr query)) s)))
          (''/search/'' @ query)
        = Some \<lparr>cache_id = currentId s, key = ''/search/'' @ query, data = d,
                timestamp = tp + 1800\<rparr>"
    by (simp only: st cacheGameData_stored getGameCache_miss(4) [OF miss])
next
  assume a: "fst (getGameCache (games_cacheKey q) tg s) = None \<and>
    axios_get (RAWG_API_URL @ ''/games'') (games_params apiKey q) = Inr d"
  then have miss: "fst (getGameCache (games_cacheKey q) tg s) = None"
    and ok: "axios_get (RAWG_API_URL @ ''/games'') (games_params apiKey q) = Inr d"
    by simp_all
  show st: "store (games_handler apiKey axios_get tg tp q s)
        = snd (cacheGameData (games_cacheKey q) d (tp + 3600)
                 (snd (getGameCache (games_cacheKey q) tg s)))"
    using miss ok by (simp add: games_handler_cases(3))
  show "map_of (gameCache (store (games_handler apiKey axios_get tg tp q s))) (games_cacheKey q)
        = Some \<lparr>cache_id = currentId s, key = games_cacheKey q, data = d,
                timestamp = tp + 3600\<rparr>"
    by (simp only: st cacheGameData_stored getGameCache_miss(4) [OF miss])
next
  assume "fst (getGameCache (''/games/'' @ gid) tg s) = Some c"
  then show "game_details_handler apiKey axios_get tg tp gid s
        = \<lparr>response = Json (data c), upstream_calls = [], store = s\<rparr>"
    by (rule game_details_handler_cases(1))
next
  assume "query \<noteq> [] \<and> fst (getGameCache (''/search/'' @ query) tg s) = Some c"
  then show "search_handler apiKey axios_get tg tp (Some (QStr query)) s
        = \<lparr>response = Json (data c), upstream_calls = [], store = s\<rparr>"
    by (simp add: search_cached_cases(1))
next
  assume "fst (getGameCache (games_cacheKey q) tg s) = Some c"
  then show "games_handler apiKey axios_get tg tp q s
        = \<lparr>response = Json (data c), upstream_calls = [], store = s\<rparr>"
    by (rule games_handler_cases(1))
qed

text \<open>Which body a request reaches: the listing path reaches the listing handler, and a
  path \<^verbatim>\<open>/api/games/<id>\<close> reaches the detail handler with that id.\<close>

lemma handle_GET_listing:
  "handle_GET apiKey axios_get tg tp \<lparr>req_path = [''api'', ''games''], req_listing = q, req_query = query\<rparr> s
     = Some (games_handler apiKey axios_get tg tp q s)"
  by (simp add: handle_GET_def cached_routes_def)

lemma handle_GET_details:
  "gid \<noteq> [] \<Longrightarrow>
   handle_GET apiKey axios_get tg tp
       \<lparr>req_path = [''api'', ''games'', gid], req_listing = q, req_query = query\<rparr> s
     = Some (game_details_handler apiKey axios_get tg tp gid s)"
  by (simp add: handle_GET_def cached_routes_def)

text \<open>
  C6. The key forms and TTL constants are fixed in the code, and the detail and listing
  endpoints cache as the claim says. The search endpoint does not: \<^verbatim>\<open>/api/games/:id\<close> is
  registered before \<^verbatim>\<open>/api/games/search\<close> and matches that path with \<open>id = "search"\<close>, so
  every \<^verbatim>\<open>GET /api/games/search\<close>, whatever its query, clock and store, runs the detail
  handler. With an empty cache and an answering upstream, \<^verbatim>\<open>?query=mario\<close> asks the
  upstream for \<^verbatim>\<open>/games/search\<close> and stores the answer under \<open>"/games/search"\<close> for
  \<open>86400\<close> seconds; the body of the search handler, which is never reached, would have
  stored it under \<open>"/search/mario"\<close> for \<open>1800\<close> seconds.
\<close>

theorem search_route_shadowed_by_details:
  "handle_GET apiKey axios_get tg tp
       \<lparr>req_path = [''api'', ''games'', ''search''], req_listing = q, req_query = query\<rparr> s
     = Some (game_details_handler apiKey axios_get tg tp ''search'' s) \<and>
   handle_GET ''k'' (answering_upstream ''G'') 100 101
       \<lparr>req_path = [''api'', ''games'', ''search''], req_listing = mario_query,
        req_query = Some (QStr ''mario'')\<rparr> MemStorage_new
     = Some \<lparr>response = Json ''G'',
             upstream_calls = [(''https://api.rawg.io/api/games/search'', [(''key'', ''k'')])],
             store = \<lparr>gameCache = [(''/games/search'',
                                     \<lparr>cache_id = 1, key = ''/games/search'', data = ''G'',
                                      timestamp = 101 + 86400\<rparr>)],
                      users = [], favorites = [], currentId = 2, userId_next = 1,
                      favoriteId = 1\<rparr>\<rparr> \<and>
   store (search_handler ''k'' (answering_upstream ''G'') 100 101 (Some (QStr ''mario''))
            MemStorage_new)
     = \<lparr>gameCache = [(''/search/mario'',
                      \<lparr>cache_id = 1, key = ''/search/mario'', data = ''G'',
                       timestamp = 101 + 1800\<rparr>)],
        users = [], favorites = [], currentId = 2, userId_next = 1, favoriteId = 1\<rparr>"
proof (intro conjI)
  show "handle_GET apiKey axios_get tg tp
       \<lparr>req_path = [''api'', ''games'', ''search''], req_listing = q, req_query = query\<rparr> s
     = Some (game_details_handler apiKey axios_get tg tp ''search'' s)"
    by (simp add: handle_GET_def cached_routes_def)
  show "handle_GET ''k'' (answering_upstream ''G'') 100 101
       \<lparr>req_path = [''api'', ''games'', ''search''], req_listing = mario_query,
        req_query = Some (QStr ''mario'')\<rparr> MemStorage_new
     = Some \<lparr>response = Json ''G'',
             upstream_calls = [(''https://api.rawg.io/api/games/search'', [(''key'', ''k'')])],
             store = \<lparr>gameCache = [(''/games/search'',
                                     \<lparr>cache_id = 1, key = ''/games/search'', data = ''G'',
                                      timestamp = 101 + 86400\<rparr>)],
                      users = [], favorites = [], currentId = 2, userId_next = 1,
                      favoriteId = 1\<rparr>\<rparr>"
    by (simp add: handle_GET_def cached_routes_def game_details_handler_def getGameCache_def
          cacheGameData_def answering_upstream_def RAWG_API_URL_def Let_def MemStorage_new_def)
  show "store (search_handler ''k'' (answering_upstream ''G'') 100 101 (Some (QStr ''mario''))
            MemStorage_new)
     = \<lparr>gameCache = [(''/search/mario'',
                      \<lparr>cache_id = 1, key = ''/search/mario'', data = ''G'',
                       timestamp = 101 + 1800\<rparr>)],
        users = [], favorites = [], currentId = 2, userId_next = 1, favoriteId = 1\<rparr>"
    by (simp add: search_cached_def getGameCache_def cacheGameData_def answering_upstream_def
          Let_def MemStorage_new_def)
qed

section \<open>The listing key: JSON.stringify is injective on the query\<close>

text \<open>The escape of a character is a prefix code, and never begins with the closing
  quote.\<close>

lemma hexdigit_inj:
  assumes "n < 16" "m < 16" "hexdigit n = hexdigit m"
  shows "n = m"
proof -
  have d: "distinct ''0123456789abcdef''"
    by simp
  have "''0123456789abcdef'' ! n = ''0123456789abcdef'' ! m"
    using assms by (simp add: hexdigit_def)
  moreover have "n < length ''0123456789abcdef''" "m < length ''0123456789abcdef''"
    using assms by simp_all
  ultimately show ?thesis
    using d by (simp only: nth_eq_iff_index_eq)
qed

lemma hex_pair_inj:
  assumes "n < 256" "m < 256"
    and "hexdigit (n div 16) = hexdigit (m div 16)"
    and "hexdigit (n mod 16) = hexdigit (m mod 16)"
  shows "n = m"
proof -
  have "n div 16 < 16" "m div 16 < 16"
    using assms(1,2) by simp_all
  then have "n div 16 = m div 16"
    using assms(3) by (rule hexdigit_inj)
  moreover have "n mod 16 = m mod 16"
    using assms(4) by (intro hexdigit_inj) simp_all
  ultimately show ?thesis
    by (metis div_mult_mod_eq)
qed

lemma escape_char_head:
  "\<exists>x xs. escape_char c = x # xs \<and> x \<noteq> CHR 0x22"
  by (simp add: escape_char_def)

lemma escape_char_prefix_free:
  assumes "escape_char c @ r = escape_char c' @ r'"
  shows "c = c' \<and> r = r'"
proof -
  have small: "(of_char c :: nat) < 256" "(of_char c' :: nat) < 256"
    by simp_all
  have hex: "c = c'"
    if "hexdigit (of_char c div 16) = hexdigit (of_char c' div 16)"
      and "hexdigit (of_char c mod 16) = hexdigit (of_char c' mod 16)"
  proof -
    have "(of_char c :: nat) = of_char c'"
      using small that by (rule hex_pair_inj)
    then show ?thesis by simp
  qed
  show ?thesis
    using assms hex
    by (simp add: escape_char_def split: if_splits)
qed

text \<open>A quoted string is self-delimiting: whatever follows it, the string and the rest
  can be read back.\<close>

lemma escaped_prefix_free:
  "concat (map escape_char s) @ CHR 0x22 # r = concat (map escape_char s') @ CHR 0x22 # r' \<Longrightarrow>
   s = s' \<and> r = r'"
proof (induction s arbitrary: s')
  case Nil
  show ?case
  proof (cases s')
    case Nil
    then show ?thesis using Nil.prems by simp
  next
    case (Cons c' t')
    obtain x xs where "escape_char c' = x # xs" "x \<noteq> CHR 0x22"
      using escape_char_head by blast
    then show ?thesis using Nil.prems Cons by simp
  qed
next
  case (Cons c t)
  show ?case
  proof (cases s')
    case Nil
    obtain x xs where "escape_char c = x # xs" "x \<noteq> CHR 0x22"
      using escape_char_head by blast
    then show ?thesis using Cons.prems Nil by simp
  next
    case (Cons c' t')
    have "escape_char c @ (concat (map escape_char t) @ CHR 0x22 # r)
            = escape_char c' @ (concat (map escape_char t') @ CHR 0x22 # r')"
      using Cons.prems Cons by simp
    then have "c = c'" and "concat (map escape_char t) @ CHR 0x22 # r
            = concat (map escape_char t') @ CHR 0x22 # r'"
      by (auto dest: escape_char_prefix_free)
    then show ?thesis
      using Cons.IH [of t'] Cons by simp
  qed
qed

lemma quoteJSON_prefix_free:
  "quoteJSON s @ r = quoteJSON s' @ r' \<Longrightarrow> s = s' \<and> r = r'"
  by (rule escaped_prefix_free) (simp add: quoteJSON_def)

lemma quoteJSON_head: "\<exists>xs. quoteJSON s = CHR 0x22 # xs"
  by (simp add: quoteJSON_def)

lemma commas_Cons:
  "commas (x # xs) = x @ concat (map ((#) CHR '','') xs)"
  by (induction xs arbitrary: x) simp_all

lemma stringify_head:
  "\<exists>x xs. stringify v = x # xs \<and> (x = CHR 0x22 \<or> x = CHR ''['' \<or> x = CHR ''{'')"
  by (cases v) (simp_all add: quoteJSON_def)


text \<open>A comma-separated list, closed by a bracket that no element begins with, is
  self-delimiting when its elements are.\<close>

lemma separated_prefix_free:
  assumes "\<And>x y r r'. x \<in> set xs \<Longrightarrow> y \<in> set ys \<Longrightarrow> f x @ r = f y @ r' \<Longrightarrow> x = y \<and> r = r'"
    and "\<And>y. y \<in> set xs \<union> set ys \<Longrightarrow> \<exists>c cs. f y = c # cs \<and> c \<noteq> CHR '','' \<and> c \<noteq> close"
    and "close \<noteq> CHR '',''"
    and "commas (map f xs) @ close # r = commas (map f ys) @ close # r'"
  shows "xs = ys \<and> r = r'"
  using assms
proof (induction xs arbitrary: ys)
  case Nil
  show ?case
  proof (cases ys)
    case Nil
    then show ?thesis using Nil.prems(4) by simp
  next
    case (Cons y ys')
    obtain c cs where "f y = c # cs" "c \<noteq> close"
      using Nil.prems(2) [of y] Cons by auto
    then show ?thesis using Nil.prems(4) Cons by (simp add: commas_Cons)
  qed
next
  case (Cons x xs')
  show ?case
  proof (cases ys)
    case Nil
    obtain c cs where "f x = c # cs" "c \<noteq> close"
      using Cons.prems(2) [of x] by auto
    then show ?thesis using Cons.prems(4) Nil by (simp add: commas_Cons)
  next
    case (Cons y ys')
    have "f x @ (concat (map ((#) CHR '','') (map f xs')) @ close # r)
            = f y @ (concat (map ((#) CHR '','') (map f ys')) @ close # r')"
      using Cons.prems(4) Cons by (simp add: commas_Cons)
    then have xy: "x = y"
      and rest: "concat (map ((#) CHR '','') (map f xs')) @ close # r
                   = concat (map ((#) CHR '','') (map f ys')) @ close # r'"
      using Cons.prems(1) [of x y] Cons by auto
    have "xs' = ys' \<and> r = r'"
    proof (cases xs')
      case Nil
      show ?thesis
      proof (cases ys')
        case Nil
        then show ?thesis using rest \<open>xs' = []\<close> by simp
      next
        case (Cons b bs)
        then show ?thesis using rest \<open>xs' = []\<close> Cons.prems(3) by simp
      qed
    next
      case (Cons a as)
      show ?thesis
      proof (cases ys')
        case Nil
        then show ?thesis using rest Cons Cons.prems(3) by simp
      next
        case (Cons b bs)
        have e: "commas (map f xs') @ close # r = commas (map f ys') @ close # r'"
          using rest Cons \<open>xs' = a # as\<close> by (simp add: commas_Cons)
        show ?thesis
        proof (rule Cons.IH)
          show "u = w \<and> p = p'"
            if "u \<in> set xs'" "w \<in> set ys'" "f u @ p = f w @ p'" for u w p p'
            using that Cons.prems(1) [of u w p p'] \<open>ys = y # ys'\<close> by simp
          show "\<exists>c cs. f w = c # cs \<and> c \<noteq> CHR '','' \<and> c \<noteq> close"
            if "w \<in> set xs' \<union> set ys'" for w
            using that Cons.prems(2) [of w] \<open>ys = y # ys'\<close> by auto
          show "close \<noteq> CHR '',''"
            by (rule Cons.prems(3))
          show "commas (map f xs') @ close # r = commas (map f ys') @ close # r'"
            by (rule e)
        qed
      qed
    qed
    then show ?thesis using xy Cons by simp
  qed
qed

text \<open>So is the text of every query value, by induction on the value.\<close>

lemma stringify_prefix_free:
  "stringify v @ r = stringify v' @ r' \<Longrightarrow> v = v' \<and> r = r'"
proof (induction v arbitrary: v' r r')
  case (QStr s)
  show ?case
  proof (cases v')
    case (QStr s')
    then show ?thesis using QStr.prems by (auto dest: quoteJSON_prefix_free)
  next
    case (QArr vs')
    then show ?thesis using QStr.prems by (simp add: quoteJSON_def)
  next
    case (QObj ms')
    then show ?thesis using QStr.prems by (simp add: quoteJSON_def)
  qed
next
  case (QArr vs)
  show ?case
  proof (cases v')
    case (QStr s')
    then show ?thesis using QArr.prems by (simp add: quoteJSON_def)
  next
    case (QArr vs')
    have eq: "commas (map stringify vs) @ CHR '']'' # r = commas (map stringify vs') @ CHR '']'' # r'"
      using QArr.prems \<open>v' = QArr vs'\<close> by simp
    have "vs = vs' \<and> r = r'"
    proof (rule separated_prefix_free [where f = stringify and close = "CHR '']''"])
      show "x = y \<and> r = r'"
        if "x \<in> set vs" "y \<in> set vs'" "stringify x @ r = stringify y @ r'" for x y r r'
        using that(1,3) by (rule QArr.IH)
      show "\<exists>c cs. stringify y = c # cs \<and> c \<noteq> CHR '','' \<and> c \<noteq> CHR '']''"
        if "y \<in> set vs \<union> set vs'" for y
        using stringify_head [of y] by auto
      show "CHR '']'' \<noteq> CHR '',''" by simp
      show "commas (map stringify vs) @ CHR '']'' # r = commas (map stringify vs') @ CHR '']'' # r'"
        by (rule eq)
    qed
    then show ?thesis using \<open>v' = QArr vs'\<close> by simp
  next
    case (QObj ms')
    then show ?thesis using QArr.prems by simp
  qed
next
  case (QObj ms)
  let ?g = "\<lambda>m. quoteJSON (fst m) @ '':'' @ stringify (snd m)"
  show ?case
  proof (cases v')
    case (QStr s')
    then show ?thesis using QObj.prems by (simp add: quoteJSON_def)
  next
    case (QArr vs')
    then show ?thesis using QObj.prems by simp
  next
    case (QObj ms')
    have eq: "commas (map ?g ms) @ CHR ''}'' # r = commas (map ?g ms') @ CHR ''}'' # r'"
      using QObj.prems \<open>v' = QObj ms'\<close> by simp
    have "ms = ms' \<and> r = r'"
    proof (rule separated_prefix_free [where f = ?g and close = "CHR ''}''"])
      show "x = y \<and> r = r'"
        if x: "x \<in> set ms" and y: "y \<in> set ms'" and e: "?g x @ r = ?g y @ r'" for x y r r'
      proof -
        have "quoteJSON (fst x) @ (CHR '':'' # stringify (snd x) @ r)
                = quoteJSON (fst y) @ (CHR '':'' # stringify (snd y) @ r')"
          using e by simp
        then have k: "fst x = fst y"
          and t: "stringify (snd x) @ r = stringify (snd y) @ r'"
          by (auto dest: quoteJSON_prefix_free)
        have "snd x \<in> Basic_BNFs.snds x"
          by (cases x) simp
        then have "snd x = snd y \<and> r = r'"
          using x t by (intro QObj.IH)
        then show ?thesis using k by (simp add: prod_eq_iff)
      qed
      show "\<exists>c cs. ?g y = c # cs \<and> c \<noteq> CHR '','' \<and> c \<noteq> CHR ''}''"
        if "y \<in> set ms \<union> set ms'" for y
        by (simp add: quoteJSON_def)
      show "CHR ''}'' \<noteq> CHR '',''" by simp
      show "commas (map ?g ms) @ CHR ''}'' # r = commas (map ?g ms') @ CHR ''}'' # r'"
        by (rule eq)
    qed
    then show ?thesis using \<open>v' = QObj ms'\<close> by simp
  qed
qed

lemma stringify_inj: "stringify v = stringify v' \<Longrightarrow> v = v'"
  using stringify_prefix_free [of v "[]" v' "[]"] by simp

text \<open>The member texts of the listing object: the text of a query value, or one of the two
  default numbers.\<close>

lemma texts_prefix_free:
  assumes "t \<in> range stringify \<union> {''1'', ''20''}" "t' \<in> range stringify \<union> {''1'', ''20''}"
    and "t @ r = t' @ r'"
  shows "t = t' \<and> r = r'"
proof -
  have num: False if "stringify v @ p = n @ p'" "n = ''1'' \<or> n = ''20''" for v p n p'
    using that stringify_head [of v] by auto
  consider (ss) v v' where "t = stringify v" "t' = stringify v'"
    | (sn) v where "t = stringify v" "t' = ''1'' \<or> t' = ''20''"
    | (ns) v' where "t' = stringify v'" "t = ''1'' \<or> t = ''20''"
    | (nn) "t = ''1'' \<or> t = ''20''" "t' = ''1'' \<or> t' = ''20''"
    using assms(1,2) by auto
  then show ?thesis
  proof cases
    case ss
    then show ?thesis using assms(3) stringify_prefix_free [of v r v' r'] by simp
  next
    case sn
    then show ?thesis using assms(3) num [of v r t' r'] by simp
  next
    case ns
    then show ?thesis using assms(3) num [of v' r' t r] by simp
  next
    case nn
    then show ?thesis using assms(3) by auto
  qed
qed

lemma map_filter_members:
  "List.map_filter (\<lambda>m. map_option (\<lambda>t. quoteJSON (fst m) @ '':'' @ t) (snd m)) ms
     = map (\<lambda>p. quoteJSON (fst p) @ '':'' @ snd p)
         (List.map_filter (\<lambda>m. map_option (Pair (fst m)) (snd m)) ms)"
  by (induction ms) (auto simp: List.map_filter_simps split: option.splits)

lemma present_names:
  "fst ` set (List.map_filter (\<lambda>m. map_option (Pair (fst m)) (snd m)) ms) \<subseteq> fst ` set ms"
  by (induction ms) (auto simp: List.map_filter_simps split: option.splits)

lemma present_texts:
  "(n, t) \<in> set (List.map_filter (\<lambda>m. map_option (Pair (fst m)) (snd m)) ms) \<Longrightarrow>
   (n, Some t) \<in> set ms"
  by (induction ms) (auto simp: List.map_filter_simps split: option.splits)

lemma present_inj:
  assumes "map fst ms = map fst ms'" "distinct (map fst ms)"
    and "List.map_filter (\<lambda>m. map_option (Pair (fst m)) (snd m)) ms
           = List.map_filter (\<lambda>m. map_option (Pair (fst m)) (snd m)) ms'"
  shows "ms = ms'"
proof -
  have len: "length ms = length ms'"
    using assms(1) by (metis length_map)
  show ?thesis
    using len assms
  proof (induction ms ms' rule: list_induct2)
    case Nil
    show ?case by simp
  next
    case (Cons m ms m' ms')
    let ?P = "\<lambda>l. List.map_filter (\<lambda>m. map_option (Pair (fst m)) (snd m)) l"
    have n: "fst m = fst m'" and ns: "map fst ms = map fst ms'"
      using Cons.prems(1) by simp_all
    have fresh: "fst m \<notin> fst ` set ms" and d: "distinct (map fst ms)"
      using Cons.prems(2) by simp_all
    have "set (map fst ms) = set (map fst ms')"
      using ns by simp
    then have fresh': "fst m \<notin> fst ` set ms'"
      using fresh by simp
    have out: "fst m \<notin> fst ` set (?P ms)" "fst m \<notin> fst ` set (?P ms')"
      using fresh fresh' present_names [of ms] present_names [of ms'] by blast+
    have notin: "(fst m, t) \<notin> set (?P ms)" "(fst m, t) \<notin> set (?P ms')" for t
    proof -
      show "(fst m, t) \<notin> set (?P ms)"
      proof
        assume "(fst m, t) \<in> set (?P ms)"
        then have "fst (fst m, t) \<in> fst ` set (?P ms)" by (rule imageI)
        then show False using out(1) by simp
      qed
      show "(fst m, t) \<notin> set (?P ms')"
      proof
        assume "(fst m, t) \<in> set (?P ms')"
        then have "fst (fst m, t) \<in> fst ` set (?P ms')" by (rule imageI)
        then show False using out(2) by simp
      qed
    qed
    have "snd m = snd m' \<and> ?P ms = ?P ms'"
    proof (cases "snd m")
      case None
      show ?thesis
      proof (cases "snd m'")
        case None
        then show ?thesis using Cons.prems(3) \<open>snd m = None\<close>
          by (simp add: List.map_filter_simps)
      next
        case (Some t')
        then have "?P ms = (fst m', t') # ?P ms'"
          using Cons.prems(3) \<open>snd m = None\<close> by (simp add: List.map_filter_simps)
        then have "(fst m, t') \<in> set (?P ms)"
          using n by simp
        then show ?thesis using notin(1) by blast
      qed
    next
      case (Some t)
      show ?thesis
      proof (cases "snd m'")
        case None
        then have "(fst m, t) # ?P ms = ?P ms'"
          using Cons.prems(3) \<open>snd m = Some t\<close> by (simp add: List.map_filter_simps)
        then have "set ((fst m, t) # ?P ms) = set (?P ms')"
          by simp
        then have "(fst m, t) \<in> set (?P ms')"
          by auto
        then show ?thesis using notin(2) by blast
      next
        case (Some t')
        then show ?thesis using Cons.prems(3) \<open>snd m = Some t\<close>
          by (simp add: List.map_filter_simps)
      qed
    qed
    then have "snd m = snd m'" and "ms = ms'"
      using Cons.IH [OF ns d] by simp_all
    then show ?case using n by (simp add: prod_eq_iff)
  qed
qed

lemma stringify_object_inj:
  assumes names: "map fst ms = map fst ms'" and dist: "distinct (map fst ms)"
    and texts: "\<And>n t. (n, Some t) \<in> set ms \<union> set ms' \<Longrightarrow> t \<in> range stringify \<union> {''1'', ''20''}"
    and eq: "stringify_object ms = stringify_object ms'"
  shows "ms = ms'"
proof -
  let ?P = "\<lambda>l. List.map_filter (\<lambda>m. map_option (Pair (fst m)) (snd m)) l"
  let ?h = "\<lambda>p. quoteJSON (fst p) @ '':'' @ snd p"
  have e: "commas (map ?h (?P ms)) @ CHR ''}'' # [] = commas (map ?h (?P ms')) @ CHR ''}'' # []"
    using eq unfolding stringify_object_def map_filter_members by simp
  have "?P ms = ?P ms' \<and> ([] :: string) = []"
  proof (rule separated_prefix_free [where f = ?h and close = "CHR ''}''"])
    show "x = y \<and> r = r'"
      if x: "x \<in> set (?P ms)" and y: "y \<in> set (?P ms')" and xy: "?h x @ r = ?h y @ r'"
      for x y r r'
    proof -
      have tx: "snd x \<in> range stringify \<union> {''1'', ''20''}"
        using present_texts [of "fst x" "snd x" ms] x texts [of "fst x" "snd x"] by simp
      have ty: "snd y \<in> range stringify \<union> {''1'', ''20''}"
        using present_texts [of "fst y" "snd y" ms'] y texts [of "fst y" "snd y"] by simp
      have "quoteJSON (fst x) @ (CHR '':'' # snd x @ r) = quoteJSON (fst y) @ (CHR '':'' # snd y @ r')"
        using xy by simp
      then have k: "fst x = fst y" and t: "snd x @ r = snd y @ r'"
        by (auto dest: quoteJSON_prefix_free)
      have "snd x = snd y \<and> r = r'"
        using tx ty t by (rule texts_prefix_free)
      then show ?thesis using k by (simp add: prod_eq_iff)
    qed
    show "\<exists>c cs. ?h y = c # cs \<and> c \<noteq> CHR '','' \<and> c \<noteq> CHR ''}''"
      if "y \<in> set (?P ms) \<union> set (?P ms')" for y
      by (simp add: quoteJSON_def)
    show "CHR ''}'' \<noteq> CHR '',''" by simp
    show "commas (map ?h (?P ms)) @ CHR ''}'' # [] = commas (map ?h (?P ms')) @ CHR ''}'' # []"
      by (rule e)
  qed
  then show ?thesis
    using names dist by (intro present_inj) simp_all
qed

lemma games_cacheKey_members_inj:
  assumes "games_cacheKey q = games_cacheKey q'"
  shows "[(''path'', Some (quoteJSON ''/games'')),
        (''search'', map_option stringify (q_search q)),
        (''page'', Some (case q_page q of None \<Rightarrow> ''1'' | Some v \<Rightarrow> stringify v)),
        (''page_size'', Some (case q_page_size q of None \<Rightarrow> ''20'' | Some v \<Rightarrow> stringify v)),
        (''platforms'', map_option stringify (q_platforms q)),
        (''genres'', map_option stringify (q_genres q)),
        (''ordering'', map_option stringify (q_ordering q)),
        (''esrb_rating'', map_option stringify (q_esrb_rating q))]
     = [(''path'', Some (quoteJSON ''/games'')),
        (''search'', map_option stringify (q_search q')),
        (''page'', Some (case q_page q' of None \<Rightarrow> ''1'' | Some v \<Rightarrow> stringify v)),
        (''page_size'', Some (case q_page_size q' of None \<Rightarrow> ''20'' | Some v \<Rightarrow> stringify v)),
        (''platforms'', map_option stringify (q_platforms q')),
        (''genres'', map_option stringify (q_genres q')),
        (''ordering'', map_option stringify (q_ordering q')),
        (''esrb_rating'', map_option stringify (q_esrb_rating q'))]"
proof (rule stringify_object_inj)
  show "stringify_object
     [(''path'', Some (quoteJSON ''/games'')),
        (''search'', map_option stringify (q_search q)),
        (''page'', Some (case q_page q of None \<Rightarrow> ''1'' | Some v \<Rightarrow> stringify v)),
        (''page_size'', Some (case q_page_size q of None \<Rightarrow> ''20'' | Some v \<Rightarrow> stringify v)),
        (''platforms'', map_option stringify (q_platforms q)),
        (''genres'', map_option stringify (q_genres q)),
        (''ordering'', map_option stringify (q_ordering q)),
        (''esrb_rating'', map_option stringify (q_esrb_rating q))]
    = stringify_object
     [(''path'', Some (quoteJSON ''/games'')),
        (''search'', map_option stringify (q_search q')),
        (''page'', Some (case q_page q' of None \<Rightarrow> ''1'' | Some v \<Rightarrow> stringify v)),
        (''page_size'', Some (case q_page_size q' of None \<Rightarrow> ''20'' | Some v \<Rightarrow> stringify v)),
        (''platforms'', map_option stringify (q_platforms q')),
        (''genres'', map_option stringify (q_genres q')),
        (''ordering'', map_option stringify (q_ordering q')),
        (''esrb_rating'', map_option stringify (q_esrb_rating q'))]"
    using assms by (simp only: games_cacheKey_def)
next
  have path: "quoteJSON ''/games'' = stringify (QStr ''/games'')"
    by simp
  have opt: "t \<in> range stringify \<union> {''1'', ''20''}" if "Some t = map_option stringify x" for t x
    using that by (cases x) auto
  have num: "(case x of None \<Rightarrow> n | Some v \<Rightarrow> stringify v) \<in> range stringify \<union> {''1'', ''20''}"
    if "n = ''1'' \<or> n = ''20''" for x n
    using that by (cases x) auto
  fix n t
  assume "(n, Some t) \<in>
    set [(''path'', Some (quoteJSON ''/games'')),
        (''search'', map_option stringify (q_search q)),
        (''page'', Some (case q_page q of None \<Rightarrow> ''1'' | Some v \<Rightarrow> stringify v)),
        (''page_size'', Some (case q_page_size q of None \<Rightarrow> ''20'' | Some v \<Rightarrow> stringify v)),
        (''platforms'', map_option stringify (q_platforms q)),
        (''genres'', map_option stringify (q_genres q)),
        (''ordering'', map_option stringify (q_ordering q)),
        (''esrb_rating'', map_option stringify (q_esrb_rating q))] \<union>
    set [(''path'', Some (quoteJSON ''/games'')),
        (''search'', map_option stringify (q_search q')),
        (''page'', Some (case q_page q' of None \<Rightarrow> ''1'' | Some v \<Rightarrow> stringify v)),
        (''page_size'', Some (case q_page_size q' of None \<Rightarrow> ''20'' | Some v \<Rightarrow> stringify v)),
        (''platforms'', map_option stringify (q_platforms q')),
        (''genres'', map_option stringify (q_genres q')),
        (''ordering'', map_option stringify (q_ordering q')),
        (''esrb_rating'', map_option stringify (q_esrb_rating q'))]"
  then consider "t = quoteJSON ''/games''"
    | x where "Some t = map_option stringify x"
    | x n where "t = (case x of None \<Rightarrow> n | Some v \<Rightarrow> stringify v)" "n = ''1'' \<or> n = ''20''"
    by (simp only: set_simps Un_iff insert_iff empty_iff prod.inject option.inject simp_thms)
       blast
  then show "t \<in> range stringify \<union> {''1'', ''20''}"
  proof cases
    case 1
    then show ?thesis by (simp only: path) blast
  next
    case 2
    then show ?thesis by (rule opt)
  next
    case 3
    then show ?thesis using num by blast
  qed
qed simp_all

lemma default_or_stringify_inj:
  assumes "(case x of None \<Rightarrow> n | Some v \<Rightarrow> stringify v) = (case x' of None \<Rightarrow> n | Some v \<Rightarrow> stringify v)"
    and "n = ''1'' \<or> n = ''20''"
  shows "x = x'"
proof -
  have no: "stringify v \<noteq> n" for v
    using assms(2) stringify_head [of v] by auto
  show ?thesis
  proof (cases x)
    case None
    show ?thesis
    proof (cases x')
      case None
      then show ?thesis using \<open>x = None\<close> by simp
    next
      case (Some v')
      then show ?thesis using assms(1) \<open>x = None\<close> no [of v'] by simp
    qed
  next
    case (Some v)
    show ?thesis
    proof (cases x')
      case None
      then show ?thesis using assms(1) Some no [of v] by simp
    next
      case (Some v')
      then show ?thesis using assms(1) \<open>x = Some v\<close> by (simp add: stringify_inj)
    qed
  qed
qed

lemma map_option_stringify_inj:
  "map_option stringify x = map_option stringify x' \<Longrightarrow> x = x'"
  by (cases x; cases x') (simp_all add: stringify_inj)


text \<open>
  C5 (as amended). The listing key is a function of the seven query parameters (the path
  marker is constant), and an injective one: two requests derive the same key exactly
  when every parameter is set or unset alike and has the same value. In the encoding,
  an unset \<open>search\<close>, \<open>platforms\<close>, \<open>genres\<close>, \<open>ordering\<close> or \<open>esrb_rating\<close> is left out,
  and an unset \<open>page\<close> or \<open>page_size\<close> is written as the default number \<open>1\<close> or \<open>20\<close>,
  which the text of no supplied value equals (that always starts with a quote, a bracket
  or a brace).
\<close>

theorem games_cacheKey_injective:
  "(games_cacheKey q = games_cacheKey q') = (q = q') \<and>
   games_cacheKey q =
     ''{'' @ quoteJSON ''path'' @ '':'' @ quoteJSON ''/games''
     @ (case q_search q of None \<Rightarrow> []
        | Some v \<Rightarrow> '','' @ quoteJSON ''search'' @ '':'' @ stringify v)
     @ '','' @ quoteJSON ''page'' @ '':''
     @ (case q_page q of None \<Rightarrow> ''1'' | Some v \<Rightarrow> stringify v)
     @ '','' @ quoteJSON ''page_size'' @ '':''
     @ (case q_page_size q of None \<Rightarrow> ''20'' | Some v \<Rightarrow> stringify v)
     @ (case q_platforms q of None \<Rightarrow> []
        | Some v \<Rightarrow> '','' @ quoteJSON ''platforms'' @ '':'' @ stringify v)
     @ (case q_genres q of None \<Rightarrow> []
        | Some v \<Rightarrow> '','' @ quoteJSON ''genres'' @ '':'' @ stringify v)
     @ (case q_ordering q of None \<Rightarrow> []
        | Some v \<Rightarrow> '','' @ quoteJSON ''ordering'' @ '':'' @ stringify v)
     @ (case q_esrb_rating q of None \<Rightarrow> []
        | Some v \<Rightarrow> '','' @ quoteJSON ''esrb_rating'' @ '':'' @ stringify v)
     @ ''}''"
proof
  show "(games_cacheKey q = games_cacheKey q') = (q = q')"
  proof
    assume "games_cacheKey q = games_cacheKey q'"
    then have m: "[(''path'', Some (quoteJSON ''/games'')),
        (''search'', map_option stringify (q_search q)),
        (''page'', Some (case q_page q of None \<Rightarrow> ''1'' | Some v \<Rightarrow> stringify v)),
        (''page_size'', Some (case q_page_size q of None \<Rightarrow> ''20'' | Some v \<Rightarrow> stringify v)),
        (''platforms'', map_option stringify (q_platforms q)),
        (''genres'', map_option stringify (q_genres q)),
        (''ordering'', map_option stringify (q_ordering q)),
        (''esrb_rating'', map_option stringify (q_esrb_rating q))]
     = [(''path'', Some (quoteJSON ''/games'')),
        (''search'', map_option stringify (q_search q')),
        (''page'', Some (case q_page q' of None \<Rightarrow> ''1'' | Some v \<Rightarrow> stringify v)),
        (''page_size'', Some (case q_page_size q' of None \<Rightarrow> ''20'' | Some v \<Rightarrow> stringify v)),
        (''platforms'', map_option stringify (q_platforms q')),
        (''genres'', map_option stringify (q_genres q')),
        (''ordering'', map_option stringify (q_ordering q')),
        (''esrb_rating'', map_option stringify (q_esrb_rating q'))]"
      by (rule games_cacheKey_members_inj)
    have "q_search q = q_search q'" "q_platforms q = q_platforms q'" "q_genres q = q_genres q'"
      "q_ordering q = q_ordering q'" "q_esrb_rating q = q_esrb_rating q'"
      using m by (simp_all add: map_option_stringify_inj)
    moreover have "q_page q = q_page q'"
      using m by (intro default_or_stringify_inj [where n = "''1''"]) simp_all
    moreover have "q_page_size q = q_page_size q'"
      using m by (intro default_or_stringify_inj [where n = "''20''"]) simp_all
    ultimately show "q = q'"
      by simp
  next
    assume "q = q'"
    then show "games_cacheKey q = games_cacheKey q'" by simp
  qed
next
  show "games_cacheKey q =
     ''{'' @ quoteJSON ''path'' @ '':'' @ quoteJSON ''/games''
     @ (case q_search q of None \<Rightarrow> []
        | Some v \<Rightarrow> '','' @ quoteJSON ''search'' @ '':'' @ stringify v)
     @ '','' @ quoteJSON ''page'' @ '':''
     @ (case q_page q of None \<Rightarrow> ''1'' | Some v \<Rightarrow> stringify v)
     @ '','' @ quoteJSON ''page_size'' @ '':''
     @ (case q_page_size q of None \<Rightarrow> ''20'' | Some v \<Rightarrow> stringify v)
     @ (case q_platforms q of None \<Rightarrow> []
        | Some v \<Rightarrow> '','' @ quoteJSON ''platforms'' @ '':'' @ stringify v)
     @ (case q_genres q of None \<Rightarrow> []
        | Some v \<Rightarrow> '','' @ quoteJSON ''genres'' @ '':'' @ stringify v)
     @ (case q_ordering q of None \<Rightarrow> []
        | Some v \<Rightarrow> '','' @ quoteJSON ''ordering'' @ '':'' @ stringify v)
     @ (case q_esrb_rating q of None \<Rightarrow> []
        | Some v \<Rightarrow> '','' @ quoteJSON ''esrb_rating'' @ '':'' @ stringify v)
     @ ''}''"
    unfolding games_cacheKey_def stringify_object_def
    by (cases "q_search q"; cases "q_platforms q"; cases "q_genres q"; cases "q_ordering q";
        cases "q_esrb_rating q")
       (simp_all only: List.map_filter_simps option.map option.case commas_Cons fst_conv snd_conv
          list.map concat.simps append_Nil append_Nil2 append_assoc append_Cons)
qed

theorem games_cacheKey_injective_witness:
  "games_cacheKey mario_query \<noteq> games_cacheKey (mario_query\<lparr>q_page := None\<rparr>) \<and>
   games_cacheKey mario_query \<noteq> games_cacheKey (mario_query\<lparr>q_search := Some (QStr ''zelda'')\<rparr>) \<and>
   games_cacheKey mario_query
     = ''{'' @ [CHR 0x22] @ ''path'' @ [CHR 0x22] @ '':'' @ [CHR 0x22] @ ''/games'' @ [CHR 0x22]
       @ '','' @ [CHR 0x22] @ ''search'' @ [CHR 0x22] @ '':'' @ [CHR 0x22] @ ''mario'' @ [CHR 0x22]
       @ '','' @ [CHR 0x22] @ ''page'' @ [CHR 0x22] @ '':'' @ [CHR 0x22] @ ''1'' @ [CHR 0x22]
       @ '','' @ [CHR 0x22] @ ''page_size'' @ [CHR 0x22] @ '':20'' @ ''}''"
proof -
  have a: "mario_query \<noteq> mario_query\<lparr>q_page := None\<rparr>"
    by (simp add: mario_query_def)
  have b: "mario_query \<noteq> mario_query\<lparr>q_search := Some (QStr ''zelda'')\<rparr>"
    by (simp add: mario_query_def)
  have c: "games_cacheKey mario_query
     = ''{'' @ [CHR 0x22] @ ''path'' @ [CHR 0x22] @ '':'' @ [CHR 0x22] @ ''/games'' @ [CHR 0x22]
       @ '','' @ [CHR 0x22] @ ''search'' @ [CHR 0x22] @ '':'' @ [CHR 0x22] @ ''mario'' @ [CHR 0x22]
       @ '','' @ [CHR 0x22] @ ''page'' @ [CHR 0x22] @ '':'' @ [CHR 0x22] @ ''1'' @ [CHR 0x22]
       @ '','' @ [CHR 0x22] @ ''page_size'' @ [CHR 0x22] @ '':20'' @ ''}''"
    using games_cacheKey_injective [of mario_query mario_query, THEN conjunct2]
    by (simp add: mario_query_def quoteJSON_def escape_char_def)
  show ?thesis
    using a b c
      games_cacheKey_injective [of mario_query "mario_query\<lparr>q_page := None\<rparr>", THEN conjunct1]
      games_cacheKey_injective [of mario_query "mario_query\<lparr>q_search := Some (QStr ''zelda'')\<rparr>",
        THEN conjunct1]
    by blast
qed

text \<open>The claim as stated fails in its last clause: with every parameter unset, \<open>page\<close>
  and \<open>page_size\<close> are in the key, as \<open>1\<close> and \<open>20\<close>, not as an undefined or absent
  marker.\<close>

theorem games_cacheKey_unset_page_counterexample:
  "games_cacheKey \<lparr>q_search = None, q_page = None, q_page_size = None, q_platforms = None,
       q_genres = None, q_ordering = None, q_esrb_rating = None\<rparr>
     = ''{'' @ [CHR 0x22] @ ''path'' @ [CHR 0x22] @ '':'' @ [CHR 0x22] @ ''/games'' @ [CHR 0x22]
       @ '','' @ [CHR 0x22] @ ''page'' @ [CHR 0x22] @ '':1''
       @ '','' @ [CHR 0x22] @ ''page_size'' @ [CHR 0x22] @ '':20'' @ ''}''"
  by (simp add: games_cacheKey_def stringify_object_def List.map_filter_simps quoteJSON_def
        escape_char_def)

end
